theory Spec2Isabelle
  imports Main "HOL-Library.Word" "HOL-Library.AList"
begin

unbundle bit_operations_syntax

section \<open>The API client of the LLM Council frontend (\<^verbatim>\<open>frontend/src/api.js\<close>)\<close>

text \<open>
  The module exports five operations that each issue one \<^verbatim>\<open>fetch\<close>. Four of them
  return the JSON body of the response; \<^verbatim>\<open>sendMessageStream\<close> reads the response body
  chunk by chunk and hands every \<^verbatim>\<open>data: \<close> line that parses to a callback.

  Everything the module does to the outside (the request it issues, every read of the
  body, every call of the callback, every \<^verbatim>\<open>console.error\<close>) is recorded in a trace, so
  that order and number of these effects can be stated.
\<close>

subsection \<open>JavaScript values\<close>

text \<open>
  A JavaScript string is a sequence of UTF-16 code units; a \<^verbatim>\<open>Uint8Array\<close> is a
  sequence of bytes.
\<close>

type_synonym byte = "8 word"
type_synonym jschar = "16 word"
type_synonym jsstring = "jschar list"

definition js :: "string \<Rightarrow> jsstring" where
  "js s = map of_char s"

definition ascii :: "string \<Rightarrow> byte list" where
  "ascii s = map of_char s"

text \<open>
  The values \<^verbatim>\<open>JSON.parse\<close> can return. A number is kept as the text of its literal
  (its floating-point value is never inspected by the module); an object keeps its
  members in the order of the text, duplicates included.
\<close>

datatype json =
    JNull
  | JBool bool
  | JNumber jsstring
  | JString jsstring
  | JArray "json list"
  | JObject "(jsstring \<times> json) list"

text \<open>The result of reading a property: \<^verbatim>\<open>undefined\<close> or a value.\<close>

datatype jsvalue = Undefined | Value json

datatype error =
    Error string        \<comment> \<open>\<^verbatim>\<open>throw new Error(msg)\<close> of the module itself\<close>
  | TypeError           \<comment> \<open>property access on \<^verbatim>\<open>null\<close>\<close>
  | FetchRejected       \<comment> \<open>the promise of \<^verbatim>\<open>fetch\<close> rejects\<close>
  | ReadRejected        \<comment> \<open>the promise of \<^verbatim>\<open>reader.read()\<close> rejects\<close>
  | JsonRejected        \<comment> \<open>the promise of \<^verbatim>\<open>response.json()\<close> rejects\<close>

text \<open>
  \<^verbatim>\<open>event.type\<close>: reading a property of \<^verbatim>\<open>null\<close> throws; booleans, numbers, strings
  and arrays have no property \<^verbatim>\<open>type\<close>; an object has the value of its last member of
  that name (a later duplicate overwrites an earlier one in \<^verbatim>\<open>JSON.parse\<close>).
\<close>

fun get_type :: "json \<Rightarrow> error + jsvalue" where
  "get_type JNull = Inl TypeError"
| "get_type (JObject members) =
     (case map_of (rev members) (js ''type'') of
        None \<Rightarrow> Inr Undefined
      | Some v \<Rightarrow> Inr (Value v))"
| "get_type _ = Inr Undefined"

subsection \<open>Requests, responses and the platform\<close>

record request =
  req_url :: jsstring
  req_method :: "jsstring option"      \<comment> \<open>\<^verbatim>\<open>None\<close>: no \<^verbatim>\<open>method\<close> option, \<^verbatim>\<open>fetch\<close> uses GET\<close>
  req_headers :: "(jsstring \<times> jsstring) list"
  req_body :: "json option"            \<comment> \<open>the value given to \<^verbatim>\<open>JSON.stringify\<close>\<close>

text \<open>One \<^verbatim>\<open>reader.read()\<close> that is not the end of the body.\<close>

datatype read_result = Chunk "byte list" | ReadFails

record response =
  resp_ok :: bool
  resp_json :: "error + json"                   \<comment> \<open>what \<^verbatim>\<open>response.json()\<close> settles to\<close>
  resp_body :: "read_result list option"        \<comment> \<open>\<^verbatim>\<open>response.body\<close>; \<^verbatim>\<open>None\<close> is \<^verbatim>\<open>null\<close>\<close>

text \<open>
  What the module takes from its surroundings: the two build-time variables, \<^verbatim>\<open>fetch\<close>
  and \<^verbatim>\<open>JSON.parse\<close> (\<^verbatim>\<open>None\<close> when it throws a \<^verbatim>\<open>SyntaxError\<close>).
\<close>

record platform =
  env_VITE_API_BASE :: "jsstring option"
  env_PROD :: bool
  fetch :: "request \<Rightarrow> error + response"
  JSON_parse :: "jsstring \<Rightarrow> json option"

datatype effect =
    Fetch request
  | ReaderRead
  | OnEvent jsvalue json
  | ConsoleError

text \<open>
  The caller's callback may change the caller's state and may throw:
  the boolean is \<^verbatim>\<open>True\<close> when it returns normally.
\<close>

type_synonym 'c callback = "jsvalue \<Rightarrow> json \<Rightarrow> 'c \<Rightarrow> bool \<times> 'c"

record 'c world =
  caller :: 'c
  trace :: "effect list"

definition emit :: "effect \<Rightarrow> 'c world \<Rightarrow> 'c world" where
  "emit e w = w\<lparr>trace := trace w @ [e]\<rparr>"

subsection \<open>Module constants and \<^verbatim>\<open>getHeaders\<close>\<close>

text \<open>Truthiness of a value that is \<^verbatim>\<open>null\<close>/\<^verbatim>\<open>undefined\<close> or a string.\<close>

definition truthy :: "jsstring option \<Rightarrow> bool" where
  "truthy v = (case v of None \<Rightarrow> False | Some s \<Rightarrow> s \<noteq> [])"

definition API_BASE :: "platform \<Rightarrow> jsstring" where
  "API_BASE p =
     (if truthy (env_VITE_API_BASE p) then the (env_VITE_API_BASE p)
      else if env_PROD p then [] else js ''http://localhost:8001'')"

definition getHeaders :: "jsstring option \<Rightarrow> (jsstring \<times> jsstring) list" where
  "getHeaders sharedSecret =
     (let headers = [(js ''Content-Type'', js ''application/json'')]
      in if truthy sharedSecret
         then AList.update (js ''X-Shared-Secret'') (the sharedSecret) headers
         else headers)"

subsection \<open>The request/response operations\<close>

text \<open>
  Each operation issues its request, throws on a response that is not \<^verbatim>\<open>ok\<close> and
  otherwise returns what \<^verbatim>\<open>response.json()\<close> settles to.
\<close>

definition json_exchange ::
  "platform \<Rightarrow> request \<Rightarrow> string \<Rightarrow> 'c world \<Rightarrow> (error + json) \<times> 'c world" where
  "json_exchange p req msg w =
     (let w' = emit (Fetch req) w
      in case fetch p req of
           Inl e \<Rightarrow> (Inl e, w')
         | Inr response \<Rightarrow>
             if \<not> resp_ok response then (Inl (Error msg), w')
             else (resp_json response, w'))"

definition listConversations_request :: "platform \<Rightarrow> jsstring option \<Rightarrow> request" where
  "listConversations_request p sharedSecret =
     \<lparr>req_url = API_BASE p @ js ''/api/conversations'',
      req_method = None,
      req_headers = getHeaders sharedSecret,
      req_body = None\<rparr>"

definition listConversations ::
  "platform \<Rightarrow> jsstring option \<Rightarrow> 'c world \<Rightarrow> (error + json) \<times> 'c world" where
  "listConversations p sharedSecret =
     json_exchange p (listConversations_request p sharedSecret) ''Failed to list conversations''"

definition createConversation_request :: "platform \<Rightarrow> jsstring option \<Rightarrow> request" where
  "createConversation_request p sharedSecret =
     \<lparr>req_url = API_BASE p @ js ''/api/conversations'',
      req_method = Some (js ''POST''),
      req_headers = getHeaders sharedSecret,
      req_body = Some (JObject [])\<rparr>"

definition createConversation ::
  "platform \<Rightarrow> jsstring option \<Rightarrow> 'c world \<Rightarrow> (error + json) \<times> 'c world" where
  "createConversation p sharedSecret =
     json_exchange p (createConversation_request p sharedSecret) ''Failed to create conversation''"

definition getConversation_request :: "platform \<Rightarrow> jsstring \<Rightarrow> jsstring option \<Rightarrow> request" where
  "getConversation_request p conversationId sharedSecret =
     \<lparr>req_url = API_BASE p @ js ''/api/conversations/'' @ conversationId,
      req_method = None,
      req_headers = getHeaders sharedSecret,
      req_body = None\<rparr>"

definition getConversation ::
  "platform \<Rightarrow> jsstring \<Rightarrow> jsstring option \<Rightarrow> 'c world \<Rightarrow> (error + json) \<times> 'c world" where
  "getConversation p conversationId sharedSecret =
     json_exchange p (getConversation_request p conversationId sharedSecret)
       ''Failed to get conversation''"

definition sendMessage_request ::
  "platform \<Rightarrow> jsstring \<Rightarrow> jsstring \<Rightarrow> jsstring option \<Rightarrow> request" where
  "sendMessage_request p conversationId content sharedSecret =
     \<lparr>req_url = API_BASE p @ js ''/api/conversations/'' @ conversationId @ js ''/message'',
      req_method = Some (js ''POST''),
      req_headers = getHeaders sharedSecret,
      req_body = Some (JObject [(js ''content'', JString content)])\<rparr>"

definition sendMessage ::
  "platform \<Rightarrow> jsstring \<Rightarrow> jsstring \<Rightarrow> jsstring option \<Rightarrow> 'c world
     \<Rightarrow> (error + json) \<times> 'c world" where
  "sendMessage p conversationId content sharedSecret =
     json_exchange p (sendMessage_request p conversationId content sharedSecret)
       ''Failed to send message''"

subsection \<open>\<^verbatim>\<open>TextDecoder\<close>: the UTF-8 decoder of the platform\<close>

text \<open>
  \<^verbatim>\<open>new TextDecoder()\<close> is a UTF-8 decoder that replaces malformed input by U+FFFD and
  removes a leading byte order mark. The decoder is the state machine of the Encoding
  standard: it reads one byte at a time and emits zero, one or two code points.
\<close>

record utf8_decoder =
  code_point :: nat
  bytes_seen :: nat
  bytes_needed :: nat
  lower_boundary :: byte
  upper_boundary :: byte

definition utf8_init :: utf8_decoder where
  "utf8_init =
     \<lparr>code_point = 0, bytes_seen = 0, bytes_needed = 0,
      lower_boundary = 0x80, upper_boundary = 0xBF\<rparr>"

text \<open>A byte read while no sequence is open.\<close>

definition utf8_lead :: "utf8_decoder \<Rightarrow> byte \<Rightarrow> utf8_decoder \<times> nat list" where
  "utf8_lead d b =
     (if b \<le> 0x7F then (d, [unat b])
      else if 0xC2 \<le> b \<and> b \<le> 0xDF then
        (d\<lparr>bytes_needed := 1, code_point := unat (b AND 0x1F)\<rparr>, [])
      else if 0xE0 \<le> b \<and> b \<le> 0xEF then
        (d\<lparr>lower_boundary := (if b = 0xE0 then 0xA0 else lower_boundary d),
           upper_boundary := (if b = 0xED then 0x9F else upper_boundary d),
           bytes_needed := 2, code_point := unat (b AND 0xF)\<rparr>, [])
      else if 0xF0 \<le> b \<and> b \<le> 0xF4 then
        (d\<lparr>lower_boundary := (if b = 0xF0 then 0x90 else lower_boundary d),
           upper_boundary := (if b = 0xF4 then 0x8F else upper_boundary d),
           bytes_needed := 3, code_point := unat (b AND 0x7)\<rparr>, [])
      else (d, [0xFFFD]))"

text \<open>
  One byte. A byte that cannot continue the open sequence closes it with U+FFFD and is
  then read again as the start of a new sequence.
\<close>

definition utf8_handler :: "utf8_decoder \<Rightarrow> byte \<Rightarrow> utf8_decoder \<times> nat list" where
  "utf8_handler d b =
     (if bytes_needed d = 0 then utf8_lead d b
      else if \<not> (lower_boundary d \<le> b \<and> b \<le> upper_boundary d) then
        (let (d', out) = utf8_lead utf8_init b in (d', 0xFFFD # out))
      else
        (let d' = d\<lparr>lower_boundary := 0x80, upper_boundary := 0xBF,
                    code_point := code_point d * 64 + unat (b AND 0x3F),
                    bytes_seen := bytes_seen d + 1\<rparr>
         in if bytes_seen d' \<noteq> bytes_needed d' then (d', [])
            else (utf8_init, [code_point d'])))"

fun utf8_run :: "utf8_decoder \<Rightarrow> byte list \<Rightarrow> utf8_decoder \<times> nat list" where
  "utf8_run d [] = (d, [])"
| "utf8_run d (b # bs) =
     (let (d1, out1) = utf8_handler d b;
          (d2, out2) = utf8_run d1 bs
      in (d2, out1 @ out2))"

text \<open>The end of the input: an open sequence is closed with U+FFFD.\<close>

definition utf8_end :: "utf8_decoder \<Rightarrow> nat list" where
  "utf8_end d = (if bytes_needed d \<noteq> 0 then [0xFFFD] else [])"

definition strip_bom :: "nat list \<Rightarrow> nat list" where
  "strip_bom cps = (case cps of [] \<Rightarrow> [] | c # cs \<Rightarrow> if c = 0xFEFF then cs else cps)"

text \<open>A code point as one UTF-16 code unit or a surrogate pair.\<close>

definition utf16_units :: "nat \<Rightarrow> jschar list" where
  "utf16_units cp =
     (if cp < 0x10000 then [of_nat cp]
      else [of_nat (0xD800 + (cp - 0x10000) div 0x400),
            of_nat (0xDC00 + (cp - 0x10000) mod 0x400)])"

text \<open>
  The code points of one call \<^verbatim>\<open>decoder.decode(value)\<close> without the \<^verbatim>\<open>stream\<close> option:
  the call starts from a fresh decoder state and ends the input.
\<close>

definition utf8_decode_all :: "byte list \<Rightarrow> nat list" where
  "utf8_decode_all bytes = (let (d, out) = utf8_run utf8_init bytes in out @ utf8_end d)"

definition decoder_decode :: "byte list \<Rightarrow> jsstring" where
  "decoder_decode bytes = concat (map utf16_units (strip_bom (utf8_decode_all bytes)))"

subsection \<open>String operations\<close>

definition nl :: jschar where
  "nl = 0x0A"

text \<open>\<^verbatim>\<open>str.split(sep)\<close> for a separator of one code unit: never an empty array.\<close>

fun split_from :: "'a list \<Rightarrow> 'a list \<Rightarrow> 'a \<Rightarrow> 'a list list" where
  "split_from cur [] sep = [cur]"
| "split_from cur (x # xs) sep =
     (if x = sep then cur # split_from [] xs sep else split_from (cur @ [x]) xs sep)"

definition js_split :: "'a list \<Rightarrow> 'a \<Rightarrow> 'a list list" where
  "js_split str sep = split_from [] str sep"

definition startsWith :: "'a list \<Rightarrow> 'a list \<Rightarrow> bool" where
  "startsWith str p = (take (length p) str = p)"

definition slice :: "nat \<Rightarrow> 'a list \<Rightarrow> 'a list" where
  "slice n str = drop n str"

subsection \<open>\<^verbatim>\<open>sendMessageStream\<close>\<close>

text \<open>
  The body of the \<^verbatim>\<open>for\<close> loop. The \<^verbatim>\<open>try\<close> block holds \<^verbatim>\<open>JSON.parse\<close>, the read of
  \<^verbatim>\<open>event.type\<close> and the call of the callback, so whatever any of the three throws
  ends in \<^verbatim>\<open>console.error\<close>.
\<close>

definition process_line :: "platform \<Rightarrow> 'c callback \<Rightarrow> jsstring \<Rightarrow> 'c world \<Rightarrow> 'c world" where
  "process_line p onEvent line w =
     (if startsWith line (js ''data: '') then
        (let data = slice 6 line
         in case JSON_parse p data of
              None \<Rightarrow> emit ConsoleError w
            | Some event \<Rightarrow>
                (case get_type event of
                   Inl e \<Rightarrow> emit ConsoleError w
                 | Inr t \<Rightarrow>
                     (let (returned, c') = onEvent t event (caller w);
                          w' = emit (OnEvent t event) (w\<lparr>caller := c'\<rparr>)
                      in if returned then w' else emit ConsoleError w')))
      else w)"

text \<open>
  The \<^verbatim>\<open>while (true)\<close> loop over the reads of the body; the end of the list is the
  read with \<^verbatim>\<open>done\<close>. Each chunk is decoded and split by itself, and the \<^verbatim>\<open>for\<close> loop
  runs over every element of \<^verbatim>\<open>lines\<close>.
\<close>

fun read_loop ::
  "platform \<Rightarrow> 'c callback \<Rightarrow> read_result list \<Rightarrow> 'c world \<Rightarrow> (error + unit) \<times> 'c world" where
  "read_loop p onEvent [] w = (Inr (), emit ReaderRead w)"
| "read_loop p onEvent (ReadFails # rest) w = (Inl ReadRejected, emit ReaderRead w)"
| "read_loop p onEvent (Chunk value # rest) w =
     (let chunk = decoder_decode value;
          lines = js_split chunk nl
      in read_loop p onEvent rest (fold (process_line p onEvent) lines (emit ReaderRead w)))"

definition sendMessageStream_request ::
  "platform \<Rightarrow> jsstring \<Rightarrow> jsstring \<Rightarrow> jsstring option \<Rightarrow> request" where
  "sendMessageStream_request p conversationId content sharedSecret =
     \<lparr>req_url = API_BASE p @ js ''/api/conversations/'' @ conversationId @ js ''/message/stream'',
      req_method = Some (js ''POST''),
      req_headers = getHeaders sharedSecret,
      req_body = Some (JObject [(js ''content'', JString content)])\<rparr>"

definition sendMessageStream ::
  "platform \<Rightarrow> jsstring \<Rightarrow> jsstring \<Rightarrow> 'c callback \<Rightarrow> jsstring option \<Rightarrow> 'c world
     \<Rightarrow> (error + unit) \<times> 'c world" where
  "sendMessageStream p conversationId content onEvent sharedSecret w =
     (let w' = emit (Fetch (sendMessageStream_request p conversationId content sharedSecret)) w
      in case fetch p (sendMessageStream_request p conversationId content sharedSecret) of
           Inl e \<Rightarrow> (Inl e, w')
         | Inr response \<Rightarrow>
             if \<not> resp_ok response then (Inl (Error ''Failed to send message''), w')
             else (case resp_body response of
                     None \<Rightarrow> (Inl TypeError, w')
                   | Some reads \<Rightarrow> read_loop p onEvent reads w'))"

text \<open>What an observer of the trace sees of the callback.\<close>

fun invocations :: "effect list \<Rightarrow> (jsvalue \<times> json) list" where
  "invocations [] = []"
| "invocations (OnEvent t e # es) = (t, e) # invocations es"
| "invocations (_ # es) = invocations es"

subsection \<open>\<^verbatim>\<open>JSON.parse\<close>\<close>

text \<open>
  A parser for the JSON grammar (ECMA-404), as \<^verbatim>\<open>JSON.parse\<close> applies it to a text: a
  scanner that turns the text into tokens, and a parser with an explicit stack of the
  arrays and objects that are still open. Both return \<^verbatim>\<open>None\<close> where \<^verbatim>\<open>JSON.parse\<close>
  throws a \<^verbatim>\<open>SyntaxError\<close>.
\<close>

definition ch :: "char \<Rightarrow> jschar" where
  "ch c = of_char c"

datatype token =
    LBrace | RBrace | LBracket | RBracket | Colon | Comma
  | TString jsstring | TNumber jsstring | TTrue | TFalse | TNull

definition is_ws :: "jschar \<Rightarrow> bool" where
  "is_ws c = (c = 0x20 \<or> c = 0x09 \<or> c = 0x0A \<or> c = 0x0D)"

definition is_digit :: "jschar \<Rightarrow> bool" where
  "is_digit c = (ch CHR ''0'' \<le> c \<and> c \<le> ch CHR ''9'')"

definition hex_value :: "jschar \<Rightarrow> jschar option" where
  "hex_value c =
     (if ch CHR ''0'' \<le> c \<and> c \<le> ch CHR ''9'' then Some (c - ch CHR ''0'')
      else if ch CHR ''a'' \<le> c \<and> c \<le> ch CHR ''f'' then Some (c - ch CHR ''a'' + 10)
      else if ch CHR ''A'' \<le> c \<and> c \<le> ch CHR ''F'' then Some (c - ch CHR ''A'' + 10)
      else None)"

text \<open>The four hexadecimal digits of a \<^verbatim>\<open>\u\<close> escape.\<close>

definition hex4 :: "jsstring \<Rightarrow> jschar option" where
  "hex4 hs =
     (case map hex_value hs of
        [Some a, Some b, Some c, Some d] \<Rightarrow> Some (a * 0x1000 + b * 0x100 + c * 0x10 + d)
      | _ \<Rightarrow> None)"

definition escape_value :: "jschar \<Rightarrow> jschar option" where
  "escape_value e =
     (if e = ch CHR ''\"'' \<or> e = ch CHR 0x5C \<or> e = ch CHR ''/'' then Some e
      else if e = ch CHR ''b'' then Some 0x08
      else if e = ch CHR ''f'' then Some 0x0C
      else if e = ch CHR ''n'' then Some 0x0A
      else if e = ch CHR ''r'' then Some 0x0D
      else if e = ch CHR ''t'' then Some 0x09
      else None)"

text \<open>
  The rest of a string after its opening quote: the code units of the string and the
  text after the closing quote.
\<close>

fun lex_string :: "jsstring \<Rightarrow> jsstring \<Rightarrow> (jsstring \<times> jsstring) option" where
  "lex_string acc [] = None"
| "lex_string acc (c # cs) =
     (if c = ch CHR ''\"'' then Some (acc, cs)
      else if c = ch CHR 0x5C then
        (case cs of
           [] \<Rightarrow> None
         | e # es \<Rightarrow>
             if e = ch CHR ''u'' then
               (case hex4 (take 4 es) of
                  None \<Rightarrow> None
                | Some u \<Rightarrow> lex_string (acc @ [u]) (drop 4 es))
             else
               (case escape_value e of
                  None \<Rightarrow> None
                | Some v \<Rightarrow> lex_string (acc @ [v]) es))
      else if c < 0x20 then None
      else lex_string (acc @ [c]) cs)"

text \<open>One or more digits at the start of a text, and the text after them.\<close>

definition digits1 :: "jsstring \<Rightarrow> (jsstring \<times> jsstring) option" where
  "digits1 cs =
     (if takeWhile is_digit cs = [] then None
      else Some (takeWhile is_digit cs, dropWhile is_digit cs))"

definition lex_int :: "jsstring \<Rightarrow> (jsstring \<times> jsstring) option" where
  "lex_int cs =
     (case cs of
        [] \<Rightarrow> None
      | c # cs' \<Rightarrow> if c = ch CHR ''0'' then Some ([c], cs') else digits1 cs)"

definition lex_frac :: "jsstring \<Rightarrow> (jsstring \<times> jsstring) option" where
  "lex_frac cs =
     (case cs of
        [] \<Rightarrow> Some ([], cs)
      | c # cs' \<Rightarrow>
          if c = ch CHR ''.'' then
            (case digits1 cs' of None \<Rightarrow> None | Some (ds, rest) \<Rightarrow> Some (c # ds, rest))
          else Some ([], cs))"

definition lex_exp :: "jsstring \<Rightarrow> (jsstring \<times> jsstring) option" where
  "lex_exp cs =
     (case cs of
        [] \<Rightarrow> Some ([], cs)
      | c # cs' \<Rightarrow>
          if c = ch CHR ''e'' \<or> c = ch CHR ''E'' then
            (case cs' of
               [] \<Rightarrow> None
             | s # cs'' \<Rightarrow>
                 if s = ch CHR ''+'' \<or> s = ch CHR ''-'' then
                   (case digits1 cs'' of
                      None \<Rightarrow> None
                    | Some (ds, rest) \<Rightarrow> Some (c # s # ds, rest))
                 else
                   (case digits1 cs' of
                      None \<Rightarrow> None
                    | Some (ds, rest) \<Rightarrow> Some (c # ds, rest)))
          else Some ([], cs))"

text \<open>A number literal at the start of a text: the literal and the text after it.\<close>

definition lex_number :: "jsstring \<Rightarrow> (jsstring \<times> jsstring) option" where
  "lex_number cs =
     (let (sign, r0) = (case cs of
                          [] \<Rightarrow> ([], cs)
                        | c # cs' \<Rightarrow> if c = ch CHR ''-'' then ([c], cs') else ([], cs))
      in case lex_int r0 of
           None \<Rightarrow> None
         | Some (i, r1) \<Rightarrow>
             (case lex_frac r1 of
                None \<Rightarrow> None
              | Some (f, r2) \<Rightarrow>
                  (case lex_exp r2 of
                     None \<Rightarrow> None
                   | Some (e, r3) \<Rightarrow> Some (sign @ i @ f @ e, r3))))"

text \<open>Every scanner of a string or a number leaves less text than it was given.\<close>

lemma lex_string_length: "lex_string acc cs = Some (s, rest) \<Longrightarrow> length rest < length cs"
proof (induction acc cs rule: lex_string.induct)
  case (1 acc)
  then show ?case by simp
next
  case (2 acc c cs)
  show ?case
  proof (cases "c = ch CHR ''\"''")
    case True
    with "2.prems" show ?thesis by simp
  next
    case nq: False
    show ?thesis
    proof (cases "c = ch CHR 0x5C")
      case True
      with nq "2.prems" "2.IH"(1,2) show ?thesis
        by (fastforce split: list.splits option.splits if_splits)
    next
      case False
      with nq "2.prems" "2.IH"(3) show ?thesis
        by (fastforce split: if_splits)
    qed
  qed
qed

lemma digits1_length: "digits1 cs = Some (ds, rest) \<Longrightarrow> length rest < length cs"
  unfolding digits1_def
  by (cases cs) (auto split: if_splits intro: le_imp_less_Suc length_dropWhile_le)

lemma lex_int_length: "lex_int cs = Some (ds, rest) \<Longrightarrow> length rest < length cs"
  unfolding lex_int_def
  by (auto split: list.splits if_splits dest: digits1_length)

lemma lex_frac_length: "lex_frac cs = Some (ds, rest) \<Longrightarrow> length rest \<le> length cs"
  unfolding lex_frac_def
  by (auto split: list.splits if_splits option.splits dest!: digits1_length)

lemma lex_exp_length: "lex_exp cs = Some (ds, rest) \<Longrightarrow> length rest \<le> length cs"
  unfolding lex_exp_def
  by (auto split: list.splits if_splits option.splits dest!: digits1_length)

lemma lex_number_length: "lex_number cs = Some (n, rest) \<Longrightarrow> length rest < length cs"
  unfolding lex_number_def
  by (auto split: list.splits if_splits option.splits prod.splits
      dest!: lex_int_length lex_frac_length lex_exp_length)

text \<open>The tokens of a text.\<close>

function lex :: "jsstring \<Rightarrow> token list option" where
  "lex [] = Some []"
| "lex (c # cs) =
     (if is_ws c then lex cs
      else if c = ch CHR ''{'' then map_option ((#) LBrace) (lex cs)
      else if c = ch CHR ''}'' then map_option ((#) RBrace) (lex cs)
      else if c = ch CHR ''['' then map_option ((#) LBracket) (lex cs)
      else if c = ch CHR '']'' then map_option ((#) RBracket) (lex cs)
      else if c = ch CHR '':'' then map_option ((#) Colon) (lex cs)
      else if c = ch CHR '','' then map_option ((#) Comma) (lex cs)
      else if c = ch CHR ''\"'' then
        (case lex_string [] cs of
           None \<Rightarrow> None
         | Some (s, rest) \<Rightarrow> map_option ((#) (TString s)) (lex rest))
      else if c = ch CHR ''-'' \<or> is_digit c then
        (case lex_number (c # cs) of
           None \<Rightarrow> None
         | Some (n, rest) \<Rightarrow> map_option ((#) (TNumber n)) (lex rest))
      else if startsWith (c # cs) (js ''true'') then map_option ((#) TTrue) (lex (drop 3 cs))
      else if startsWith (c # cs) (js ''false'') then map_option ((#) TFalse) (lex (drop 4 cs))
      else if startsWith (c # cs) (js ''null'') then map_option ((#) TNull) (lex (drop 3 cs))
      else None)"
  by pat_completeness auto
termination
proof (relation "measure length")
  show "wf (measure length)" by simp
qed (auto dest: lex_string_length lex_number_length)

text \<open>
  The parser. \<^verbatim>\<open>parse_value\<close> expects a value; \<^verbatim>\<open>parse_after\<close> has just completed the
  value \<^verbatim>\<open>v\<close> and puts it into the innermost open array or object, or returns it when
  nothing is open and the text has ended.
\<close>

datatype frame =
    InArray "json list"
  | InObject "(jsstring \<times> json) list" jsstring

fun parse_value :: "frame list \<Rightarrow> token list \<Rightarrow> json option"
  and parse_after :: "json \<Rightarrow> frame list \<Rightarrow> token list \<Rightarrow> json option" where
  "parse_value st [] = None"
| "parse_value st (t # ts) =
     (case t of
        TNull \<Rightarrow> parse_after JNull st ts
      | TTrue \<Rightarrow> parse_after (JBool True) st ts
      | TFalse \<Rightarrow> parse_after (JBool False) st ts
      | TNumber n \<Rightarrow> parse_after (JNumber n) st ts
      | TString s \<Rightarrow> parse_after (JString s) st ts
      | LBracket \<Rightarrow>
          (case ts of
             RBracket # ts' \<Rightarrow> parse_after (JArray []) st ts'
           | _ \<Rightarrow> parse_value (InArray [] # st) ts)
      | LBrace \<Rightarrow>
          (case ts of
             RBrace # ts' \<Rightarrow> parse_after (JObject []) st ts'
           | TString k # Colon # ts' \<Rightarrow> parse_value (InObject [] k # st) ts'
           | _ \<Rightarrow> None)
      | _ \<Rightarrow> None)"
| "parse_after v [] ts = (if ts = [] then Some v else None)"
| "parse_after v (f # st) [] = None"
| "parse_after v (f # st) (t # ts) =
     (case f of
        InArray vs \<Rightarrow>
          (case t of
             Comma \<Rightarrow> parse_value (InArray (vs @ [v]) # st) ts
           | RBracket \<Rightarrow> parse_after (JArray (vs @ [v])) st ts
           | _ \<Rightarrow> None)
      | InObject ms k \<Rightarrow>
          (case t of
             Comma \<Rightarrow>
               (case ts of
                  TString k' # Colon # ts' \<Rightarrow> parse_value (InObject (ms @ [(k, v)]) k' # st) ts'
                | _ \<Rightarrow> None)
           | RBrace \<Rightarrow> parse_after (JObject (ms @ [(k, v)])) st ts
           | _ \<Rightarrow> None))"

definition json_parse :: "jsstring \<Rightarrow> json option" where
  "json_parse text = (case lex text of None \<Rightarrow> None | Some ts \<Rightarrow> parse_value [] ts)"

text \<open>
  A platform whose \<^verbatim>\<open>JSON.parse\<close> is this parser and whose network is down; a
  response is put in with \<^verbatim>\<open>respond\<close> below.
\<close>

definition browser :: platform where
  "browser =
     \<lparr>env_VITE_API_BASE = None, env_PROD = True,
      fetch = (\<lambda>req. Inl FetchRejected), JSON_parse = json_parse\<rparr>"

text \<open>A callback that counts its calls and always returns.\<close>

definition counting :: "nat callback" where
  "counting t event n = (True, Suc n)"

definition start :: "nat world" where
  "start = \<lparr>caller = 0, trace = []\<rparr>"

subsection \<open>Vocabulary of the properties\<close>

text \<open>
  The platform \<^verbatim>\<open>p\<close> with a \<^verbatim>\<open>fetch\<close> that answers every request with a successful
  response whose body delivers \<^verbatim>\<open>reads\<close>.
\<close>

definition respond :: "platform \<Rightarrow> read_result list \<Rightarrow> platform" where
  "respond p reads =
     p\<lparr>fetch := (\<lambda>req. Inr \<lparr>resp_ok = True, resp_json = Inl JsonRejected,
                                resp_body = Some reads\<rparr>)\<rparr>"

text \<open>The text of records that each end with a newline.\<close>

definition newline_terminated :: "jsstring list \<Rightarrow> jsstring" where
  "newline_terminated records = concat (map (\<lambda>r. r @ [nl]) records)"

text \<open>
  The same text as a sequence of pieces, each a record or a newline; chunks that are
  made of whole pieces have no boundary inside a record.
\<close>

definition tokens :: "jsstring list \<Rightarrow> jsstring list" where
  "tokens records = concat (map (\<lambda>record. [record, [nl]]) records)"

text \<open>
  A record that carries an event: the prefix, then a JSON text for a value other than
  \<^verbatim>\<open>null\<close>; and what the callback is given for it.
\<close>

definition is_event :: "platform \<Rightarrow> jsstring \<Rightarrow> bool" where
  "is_event p record =
     (startsWith record (js ''data: '') \<and>
      (case JSON_parse p (slice 6 record) of None \<Rightarrow> False | Some event \<Rightarrow> event \<noteq> JNull))"

definition type_tag :: "json \<Rightarrow> jsvalue" where
  "type_tag event = (case get_type event of Inl e \<Rightarrow> Undefined | Inr t \<Rightarrow> t)"

definition delivered :: "platform \<Rightarrow> jsstring \<Rightarrow> jsvalue \<times> json" where
  "delivered p record =
     (let event = the (JSON_parse p (slice 6 record)) in (type_tag event, event))"

text \<open>
  A response that is not \<^verbatim>\<open>ok\<close>, although its body holds an event.
\<close>

definition not_found :: response where
  \<open>not_found =
     \<lparr>resp_ok = False, resp_json = Inl JsonRejected,
      resp_body = Some [Chunk (ascii ''data: {"type":"a"}\<newline>'')]\<rparr>\<close>

text \<open>The number of calls of \<^verbatim>\<open>reader.read()\<close> in a trace.\<close>

definition reads_made :: "effect list \<Rightarrow> nat" where
  "reads_made tr = length (filter (\<lambda>e. e = ReaderRead) tr)"

text \<open>The number of calls of \<^verbatim>\<open>console.error\<close> in a trace.\<close>

definition errors_logged :: "effect list \<Rightarrow> nat" where
  "errors_logged tr = length (filter (\<lambda>e. e = ConsoleError) tr)"

text \<open>
  Pieces as they can follow each other in such a text: newlines and event records, no
  two records without a newline between them.
\<close>

fun whole_tokens :: "platform \<Rightarrow> jsstring list \<Rightarrow> bool" where
  "whole_tokens p [] = True"
| "whole_tokens p (t # ts) =
     ((t = [nl] \<or> (nl \<notin> set t \<and> is_event p t \<and> (ts = [] \<or> hd ts = [nl])))
      \<and> whole_tokens p ts)"

text \<open>The requests in a trace.\<close>

fun requests :: "effect list \<Rightarrow> request list" where
  "requests [] = []"
| "requests (Fetch req # es) = req # requests es"
| "requests (_ # es) = requests es"

text \<open>A value without a \<^verbatim>\<open>type\<close> member (anything but an object has none).\<close>

definition lacks_type :: "json \<Rightarrow> bool" where
  "lacks_type event =
     (case event of JObject members \<Rightarrow> js ''type'' \<notin> fst ` set members | _ \<Rightarrow> True)"

text \<open>The state of the loop after chunks that were all read successfully.\<close>

definition after_chunks :: "platform \<Rightarrow> 'c callback \<Rightarrow> byte list list \<Rightarrow> 'c world \<Rightarrow> 'c world" where
  "after_chunks p onEvent chunks w =
     fold (\<lambda>c w. fold (process_line p onEvent) (js_split (decoder_decode c) nl) (emit ReaderRead w))
       chunks w"

text \<open>
  The read loop in the specification's words, to compare the source's loop with: the
  decoded text is appended to a Pending Buffer, the buffer is split on newlines, all
  segments but the last are complete records, and the buffer is reset to the last
  segment. What is left in the buffer at the end is discarded.
\<close>

fun buffered_read_loop ::
  "platform \<Rightarrow> 'c callback \<Rightarrow> jsstring \<Rightarrow> read_result list \<Rightarrow> 'c world
     \<Rightarrow> (error + unit) \<times> 'c world" where
  "buffered_read_loop p onEvent buffer [] w = (Inr (), emit ReaderRead w)"
| "buffered_read_loop p onEvent buffer (ReadFails # rest) w = (Inl ReadRejected, emit ReaderRead w)"
| "buffered_read_loop p onEvent buffer (Chunk value # rest) w =
     (let segments = js_split (buffer @ decoder_decode value) nl
      in buffered_read_loop p onEvent (last segments) rest
           (fold (process_line p onEvent) (butlast segments) (emit ReaderRead w)))"

text \<open>A read whose decoded text is empty or ends with a newline.\<close>

definition ends_with_newline :: "jsstring \<Rightarrow> bool" where
  "ends_with_newline text = (text = [] \<or> last text = nl)"

definition whole_lines :: "read_result \<Rightarrow> bool" where
  "whole_lines r = (case r of Chunk value \<Rightarrow> ends_with_newline (decoder_decode value) | ReadFails \<Rightarrow> True)"

text \<open>
  A chunk after which the decoder has no sequence open, and a chunk whose first decoded
  code point is the byte order mark.
\<close>

definition ends_on_character_boundary :: "byte list \<Rightarrow> bool" where
  "ends_on_character_boundary chunk = (bytes_needed (fst (utf8_run utf8_init chunk)) = 0)"

definition starts_with_bom :: "byte list \<Rightarrow> bool" where
  "starts_with_bom chunk =
     (case utf8_decode_all chunk of [] \<Rightarrow> False | cp # cps \<Rightarrow> cp = 0xFEFF)"

text \<open>With no sequence open, the decoder is in its initial state.\<close>

definition idle :: "utf8_decoder \<Rightarrow> bool" where
  "idle d = (bytes_needed d = 0 \<longrightarrow> d = utf8_init)"

text \<open>
  Example streams. The first is the one of the specification: two records, cut in the
  middle of the first and in the middle of the prefix of the second. The second has
  three records and one chunk boundary, between a record and its newline.
\<close>

definition split_example :: "byte list list" where
  \<open>split_example =
     [ascii ''data: {"typ'', ascii ''e":"a"}\<newline>da'', ascii ''ta: {"type":"b"}\<newline>'']\<close>

definition uncut_example :: "byte list list" where
  \<open>uncut_example =
     [ascii ''data: {"type":"a"}\<newline>data: {"type":"b"}'',
      ascii ''\<newline>data: {"type":"c"}\<newline>'']\<close>

text \<open>The event \<^verbatim>\<open>{"type": t}\<close>.\<close>

definition typed_event :: "string \<Rightarrow> json" where
  "typed_event t = JObject [(js ''type'', JString (js t))]"

text \<open>
  One chunk of three records whose second record is a \<^verbatim>\<open>data: \<close> line with a truncated
  payload, the same chunk with a comment line as its second record, and the same with
  an empty second record.
\<close>

definition malformed_example :: "byte list" where
  \<open>malformed_example =
     ascii ''data: {"type":"a"}\<newline>data: {"typ\<newline>data: {"type":"b"}\<newline>''\<close>

definition noise_example :: "byte list" where
  \<open>noise_example = ascii ''data: {"type":"a"}\<newline>: ping\<newline>data: {"type":"b"}\<newline>''\<close>

definition blank_example :: "byte list" where
  \<open>blank_example = ascii ''data: {"type":"a"}\<newline>\<newline>data: {"type":"b"}\<newline>''\<close>

text \<open>The record \<^verbatim>\<open>data: 12\<close>, cut by a chunk boundary between the two digits.\<close>

definition cut_number_example :: "read_result list" where
  \<open>cut_number_example = [Chunk (ascii ''data: 1''), Chunk (ascii ''2\<newline>'')]\<close>

section \<open>Properties\<close>

subsection \<open>Auxiliary facts\<close>

lemma caller_emit [simp]: "caller (emit e w) = caller w"
  by (simp add: emit_def)

lemma trace_emit [simp]: "trace (emit e w) = trace w @ [e]"
  by (simp add: emit_def)

lemma invocations_append [simp]: "invocations (a @ b) = invocations a @ invocations b"
  by (induction a rule: invocations.induct) simp_all

lemma split_from_append_sep:
  "split_from cur (a @ sep # b) sep = split_from cur a sep @ split_from [] b sep"
  by (induction a arbitrary: cur) simp_all

lemma split_from_no_sep: "sep \<notin> set r \<Longrightarrow> split_from cur r sep = [cur @ r]"
  by (induction r arbitrary: cur) auto

lemma process_line_other:
  "\<not> startsWith line (js ''data: '') \<Longrightarrow> process_line p onEvent line w = w"
  by (simp add: process_line_def)

lemma process_line_malformed:
  "startsWith line (js ''data: '') \<Longrightarrow> JSON_parse p (slice 6 line) = None
     \<Longrightarrow> process_line p onEvent line w = emit ConsoleError w"
  by (simp add: process_line_def)

lemma process_line_null:
  "startsWith line (js ''data: '') \<Longrightarrow> JSON_parse p (slice 6 line) = Some JNull
     \<Longrightarrow> process_line p onEvent line w = emit ConsoleError w"
  by (simp add: process_line_def)

lemma get_type_tag: "event \<noteq> JNull \<Longrightarrow> get_type event = Inr (type_tag event)"
  by (cases event) (simp_all add: type_tag_def split: option.splits)

lemma process_line_event:
  assumes "startsWith line (js ''data: '')"
    and "JSON_parse p (slice 6 line) = Some event" and "event \<noteq> JNull"
  shows "process_line p onEvent line w =
           (let (returned, c') = onEvent (type_tag event) event (caller w);
                w' = emit (OnEvent (type_tag event) event) (w\<lparr>caller := c'\<rparr>)
            in if returned then w' else emit ConsoleError w')"
  using assms by (simp add: process_line_def get_type_tag)

lemma invocations_process_line_event:
  assumes "startsWith line (js ''data: '')"
    and "JSON_parse p (slice 6 line) = Some event" and "event \<noteq> JNull"
  shows "invocations (trace (process_line p onEvent line w)) =
           invocations (trace w) @ [(type_tag event, event)]"
  by (simp add: process_line_event [OF assms] Let_def split: prod.splits)

lemma empty_line_ignored [simp]: "process_line p onEvent [] w = w"
  by (simp add: process_line_def startsWith_def js_def)

text \<open>
  Processing lines only adds to the trace, and what it adds and what it does to the
  caller depend on the caller's state alone.
\<close>

lemma process_line_frame:
  assumes "caller w = caller w'"
  shows "\<exists>es. trace (process_line p onEvent line w) = trace w @ es
            \<and> trace (process_line p onEvent line w') = trace w' @ es
            \<and> caller (process_line p onEvent line w) = caller (process_line p onEvent line w')"
  using assms
  by (auto simp: process_line_def Let_def split: option.splits sum.splits prod.splits)

lemma fold_process_line_frame:
  assumes "caller w = caller w'"
  shows "\<exists>es. trace (fold (process_line p onEvent) lines w) = trace w @ es
            \<and> trace (fold (process_line p onEvent) lines w') = trace w' @ es
            \<and> caller (fold (process_line p onEvent) lines w)
                = caller (fold (process_line p onEvent) lines w')"
  using assms
proof (induction lines arbitrary: w w')
  case Nil
  then show ?case by simp
next
  case (Cons l ls)
  from process_line_frame [OF Cons.prems, of p onEvent l] obtain es where
    es: "trace (process_line p onEvent l w) = trace w @ es"
        "trace (process_line p onEvent l w') = trace w' @ es"
        "caller (process_line p onEvent l w) = caller (process_line p onEvent l w')"
    by blast
  from Cons.IH [OF es(3)] obtain fs where
    "trace (fold (process_line p onEvent) ls (process_line p onEvent l w))
       = trace (process_line p onEvent l w) @ fs"
    "trace (fold (process_line p onEvent) ls (process_line p onEvent l w'))
       = trace (process_line p onEvent l w') @ fs"
    "caller (fold (process_line p onEvent) ls (process_line p onEvent l w))
       = caller (fold (process_line p onEvent) ls (process_line p onEvent l w'))"
    by blast
  with es show ?case by simp
qed

lemma read_loop_frame:
  assumes "caller w = caller w'"
  shows "fst (read_loop p onEvent reads w) = fst (read_loop p onEvent reads w')
         \<and> caller (snd (read_loop p onEvent reads w)) = caller (snd (read_loop p onEvent reads w'))
         \<and> (\<exists>es. trace (snd (read_loop p onEvent reads w)) = trace w @ es
                \<and> trace (snd (read_loop p onEvent reads w')) = trace w' @ es)"
  using assms
proof (induction p onEvent reads w arbitrary: w' rule: read_loop.induct)
  case (1 p onEvent w)
  then show ?case by simp
next
  case (2 p onEvent rest w)
  then show ?case by simp
next
  case (3 p onEvent "value" rest w)
  let ?ls = "js_split (decoder_decode value) nl"
  have c: "caller (emit ReaderRead w) = caller (emit ReaderRead w')"
    using "3.prems" by simp
  from fold_process_line_frame [OF c, of p onEvent ?ls] obtain es where
    es: "trace (fold (process_line p onEvent) ?ls (emit ReaderRead w)) = trace w @ ReaderRead # es"
        "trace (fold (process_line p onEvent) ?ls (emit ReaderRead w')) = trace w' @ ReaderRead # es"
        "caller (fold (process_line p onEvent) ?ls (emit ReaderRead w))
           = caller (fold (process_line p onEvent) ?ls (emit ReaderRead w'))"
    by auto
  from "3.IH" [OF refl refl es(3)] es(1,2) show ?case
    by (auto simp: Let_def)
qed

lemma process_line_fetch [simp]:
  "process_line (p\<lparr>fetch := f\<rparr>) onEvent line w = process_line p onEvent line w"
  by (simp add: process_line_def)

lemma read_loop_fetch [simp]:
  "read_loop (p\<lparr>fetch := f\<rparr>) onEvent reads w = read_loop p onEvent reads w"
proof (induction reads arbitrary: w)
  case Nil
  then show ?case by simp
next
  case (Cons r reads)
  have "process_line (p\<lparr>fetch := f\<rparr>) onEvent = process_line p onEvent"
    by (rule ext)+ simp
  with Cons show ?case by (cases r) (simp_all add: Let_def)
qed

lemma sendMessageStream_request_fetch [simp]:
  "sendMessageStream_request (p\<lparr>fetch := f\<rparr>) = sendMessageStream_request p"
  by (rule ext)+ (simp add: sendMessageStream_request_def API_BASE_def)

lemma sendMessageStream_respond:
  "sendMessageStream (respond p reads) conversationId content onEvent sharedSecret w =
     read_loop p onEvent reads
       (emit (Fetch (sendMessageStream_request p conversationId content sharedSecret)) w)"
  by (simp add: sendMessageStream_def respond_def Let_def)

lemma requests_append [simp]: "requests (a @ b) = requests a @ requests b"
  by (induction a rule: requests.induct) simp_all

lemma header_names_differ:
  "js ''X-Shared-Secret'' \<noteq> js ''Content-Type''" "js ''Content-Type'' \<noteq> js ''X-Shared-Secret''"
  by (simp_all add: js_def)

lemma requests_process_line [simp]:
  "requests (trace (process_line p onEvent line w)) = requests (trace w)"
  by (simp add: process_line_def Let_def split: option.splits sum.splits prod.splits)

lemma requests_fold_process_line [simp]:
  "requests (trace (fold (process_line p onEvent) lines w)) = requests (trace w)"
  by (induction lines arbitrary: w) simp_all

lemma requests_read_loop [simp]:
  "requests (trace (snd (read_loop p onEvent reads w))) = requests (trace w)"
  by (induction p onEvent reads w rule: read_loop.induct) (simp_all add: Let_def)

lemma requests_json_exchange [simp]:
  "requests (trace (snd (json_exchange p req msg w))) = requests (trace w) @ [req]"
  by (simp add: json_exchange_def Let_def split: sum.splits)

lemma requests_sendMessageStream [simp]:
  "requests (trace (snd (sendMessageStream p conversationId content onEvent sharedSecret w))) =
     requests (trace w) @ [sendMessageStream_request p conversationId content sharedSecret]"
  by (simp add: sendMessageStream_def Let_def split: sum.splits option.splits)

lemma read_loop_chunks:
  "read_loop p onEvent (map Chunk chunks @ rest) w =
     read_loop p onEvent rest (after_chunks p onEvent chunks w)"
  by (induction chunks arbitrary: w) (simp_all add: after_chunks_def Let_def)

lemma fold_events:
  "\<forall>r \<in> set rs. is_event p r \<Longrightarrow>
     invocations (trace (fold (process_line p onEvent) rs w)) =
       invocations (trace w) @ map (delivered p) rs"
proof (induction rs arbitrary: w)
  case Nil
  then show ?case by simp
next
  case (Cons r rs)
  from Cons.prems obtain event where
    r: "startsWith r (js ''data: '')" "JSON_parse p (slice 6 r) = Some event" "event \<noteq> JNull"
    by (auto simp: is_event_def split: option.splits)
  have "invocations (trace (process_line p onEvent r w)) =
          invocations (trace w) @ [delivered p r]"
    using invocations_process_line_event [OF r] r(2) by (simp add: delivered_def)
  with Cons show ?case by simp
qed

lemma split_from_prefix:
  "sep \<notin> set r \<Longrightarrow> split_from cur (r @ xs) sep = split_from (cur @ r) xs sep"
  by (induction r arbitrary: cur) auto

lemma is_event_nonempty: "is_event p r \<Longrightarrow> r \<noteq> []"
  by (auto simp: is_event_def startsWith_def js_def)

lemma whole_tokens_append:
  "whole_tokens p (a @ b) \<Longrightarrow> whole_tokens p a \<and> whole_tokens p b"
  by (induction a) (auto simp: hd_append split: if_splits)

lemma whole_tokens_records:
  "list_all (\<lambda>r. nl \<notin> set r \<and> is_event p r) records \<Longrightarrow> whole_tokens p (tokens records)"
  by (induction records) (simp_all add: tokens_def)

lemma records_of_tokens:
  "list_all (\<lambda>r. nl \<notin> set r \<and> is_event p r) records \<Longrightarrow>
     filter (\<lambda>t. t \<noteq> [nl]) (tokens records) = records"
  by (induction records) (auto simp: tokens_def)

lemma concat_tokens: "concat (tokens records) = newline_terminated records"
  by (induction records) (simp_all add: tokens_def newline_terminated_def)

lemma fold_whole_tokens:
  assumes "whole_tokens p ts"
    and "cur = [] \<or> (nl \<notin> set cur \<and> is_event p cur \<and> (ts = [] \<or> hd ts = [nl]))"
  shows "invocations (trace (fold (process_line p onEvent) (split_from cur (concat ts) nl) w))
           = invocations (trace w)
               @ map (delivered p) ((if cur = [] then [] else [cur]) @ filter (\<lambda>t. t \<noteq> [nl]) ts)"
  using assms
proof (induction ts arbitrary: cur w)
  case Nil
  then show ?case
    using fold_events [of "[cur]" p onEvent w] by auto
next
  case (Cons t ts)
  show ?case
  proof (cases "t = [nl]")
    case True
    have first: "invocations (trace (process_line p onEvent cur w))
                   = invocations (trace w) @ map (delivered p) (if cur = [] then [] else [cur])"
      using Cons.prems(2) fold_events [of "[cur]" p onEvent w] by auto
    have rest: "invocations (trace (fold (process_line p onEvent) (split_from [] (concat ts) nl)
                   (process_line p onEvent cur w)))
                 = invocations (trace (process_line p onEvent cur w))
                     @ map (delivered p) (filter (\<lambda>t. t \<noteq> [nl]) ts)"
      using Cons.IH [of "[]" "process_line p onEvent cur w"] Cons.prems(1) by simp
    show ?thesis
      using True first rest by simp
  next
    case False
    with Cons.prems have t: "nl \<notin> set t" "is_event p t" "ts = [] \<or> hd ts = [nl]"
      and cur: "cur = []" and ts: "whole_tokens p ts"
      by auto
    have "t \<noteq> []" using is_event_nonempty [OF t(2)] .
    with Cons.IH [of t w] t ts False cur show ?thesis
      by (simp add: split_from_prefix)
  qed
qed

lemma after_chunks_whole_tokens:
  assumes "map decoder_decode chunks = map concat groups"
    and "whole_tokens p (concat groups)"
  shows "invocations (trace (after_chunks p onEvent chunks w))
           = invocations (trace w) @ map (delivered p) (filter (\<lambda>t. t \<noteq> [nl]) (concat groups))"
  using assms
proof (induction chunks arbitrary: groups w)
  case Nil
  then show ?case by (simp add: after_chunks_def)
next
  case (Cons c chunks)
  from Cons.prems(1) obtain g gs where
    g: "groups = g # gs" "decoder_decode c = concat g" "map decoder_decode chunks = map concat gs"
    by (cases groups) auto
  from Cons.prems(2) g(1) have w: "whole_tokens p g" "whole_tokens p (concat gs)"
    using whole_tokens_append [of p g "concat gs"] by simp_all
  let ?w1 = "fold (process_line p onEvent) (js_split (decoder_decode c) nl) (emit ReaderRead w)"
  have one: "invocations (trace ?w1)
               = invocations (trace w) @ map (delivered p) (filter (\<lambda>t. t \<noteq> [nl]) g)"
    using fold_whole_tokens [OF w(1), of "[]" onEvent "emit ReaderRead w"]
    by (simp add: js_split_def g(2))
  have "after_chunks p onEvent (c # chunks) w = after_chunks p onEvent chunks ?w1"
    by (simp add: after_chunks_def)
  with Cons.IH [OF g(3) w(2), of ?w1] one g(1) show ?case by simp
qed

lemma fold_process_line_extends:
  "\<exists>es. trace (fold (process_line p onEvent) lines w) = trace w @ es"
  using fold_process_line_frame [of w w p onEvent lines] by auto

lemma read_loop_extends:
  "\<exists>es. trace (snd (read_loop p onEvent reads w)) = trace w @ es"
  using read_loop_frame [of w w p onEvent reads] by auto

lemma js_split_last_segment:
  assumes "pre = [] \<or> last pre = sep" and "sep \<notin> set record"
  shows "\<exists>ls. js_split (pre @ record) sep = ls @ [record]"
proof (cases "pre = []")
  case True
  with assms(2) show ?thesis by (simp add: js_split_def split_from_no_sep)
next
  case False
  with assms(1) obtain pre' where "pre = pre' @ [sep]"
    by (metis append_butlast_last_id)
  then have "js_split (pre @ record) sep = split_from [] pre' sep @ split_from [] record sep"
    by (simp add: js_split_def split_from_append_sep)
  with assms(2) show ?thesis by (simp add: split_from_no_sep)
qed

lemma type_tag_lacking: "lacks_type event \<Longrightarrow> type_tag event = Undefined"
  by (cases event)
     (auto simp: type_tag_def lacks_type_def map_of_eq_None_iff split: option.splits)

lemma js_split_whole_lines:
  assumes "ends_with_newline text"
  shows "last (js_split text nl) = []
       \<and> fold (process_line p onEvent) (js_split text nl) w
         = fold (process_line p onEvent) (butlast (js_split text nl)) w"
proof (cases "text = []")
  case True
  then show ?thesis by (simp add: js_split_def)
next
  case False
  with assms obtain t where "text = t @ [nl]"
    unfolding ends_with_newline_def by (metis append_butlast_last_id)
  then have "js_split text nl = split_from [] t nl @ [[]]"
    by (simp add: js_split_def split_from_append_sep)
  then show ?thesis by simp
qed

lemma bytes_needed_init [simp]: "bytes_needed utf8_init = 0"
  by (simp add: utf8_init_def)

lemma utf8_lead_idle: "idle (fst (utf8_lead utf8_init b))"
  by (simp add: utf8_lead_def idle_def utf8_init_def)

lemma utf8_handler_idle: "idle d \<Longrightarrow> idle (fst (utf8_handler d b))"
  unfolding utf8_handler_def
  using utf8_lead_idle [of b]
  by (auto simp: idle_def Let_def split: prod.splits)

lemma utf8_run_idle: "idle d \<Longrightarrow> idle (fst (utf8_run d bs))"
proof (induction bs arbitrary: d)
  case Nil
  then show ?case by simp
next
  case (Cons b bs)
  from Cons.IH [OF utf8_handler_idle [OF Cons.prems, of b]] show ?case
    by (simp add: Let_def case_prod_beta)
qed

lemma utf8_run_append:
  "utf8_run d (a @ b) =
     (let (d1, out1) = utf8_run d a; (d2, out2) = utf8_run d1 b in (d2, out1 @ out2))"
  by (induction a arbitrary: d) (simp_all add: Let_def case_prod_beta)

lemma boundary_state:
  assumes "ends_on_character_boundary chunk"
  shows "fst (utf8_run utf8_init chunk) = utf8_init"
proof -
  have "idle (fst (utf8_run utf8_init chunk))"
    by (rule utf8_run_idle) (simp add: idle_def)
  with assms show ?thesis
    by (simp add: idle_def ends_on_character_boundary_def)
qed

lemma utf8_decode_all_append:
  assumes "ends_on_character_boundary a"
  shows "utf8_decode_all (a @ b) = utf8_decode_all a @ utf8_decode_all b"
    and "ends_on_character_boundary b \<Longrightarrow> ends_on_character_boundary (a @ b)"
  using boundary_state [OF assms]
  by (simp_all add: utf8_decode_all_def utf8_run_append utf8_end_def
      ends_on_character_boundary_def Let_def case_prod_beta)

lemma utf8_decode_all_concat:
  "list_all ends_on_character_boundary chunks \<Longrightarrow>
     utf8_decode_all (concat chunks) = concat (map utf8_decode_all chunks)
     \<and> ends_on_character_boundary (concat chunks)"
proof (induction chunks)
  case Nil
  then show ?case
    by (simp add: utf8_decode_all_def utf8_end_def utf8_init_def ends_on_character_boundary_def)
next
  case (Cons c chunks)
  then show ?case by (simp add: utf8_decode_all_append)
qed

lemma strip_bom_none: "\<not> starts_with_bom chunk \<Longrightarrow> strip_bom (utf8_decode_all chunk) = utf8_decode_all chunk"
  by (simp add: starts_with_bom_def strip_bom_def split: list.splits)

lemma strip_bom_concat_none:
  "list_all (\<lambda>c. \<not> starts_with_bom c) chunks \<Longrightarrow>
     strip_bom (concat (map utf8_decode_all chunks)) = concat (map utf8_decode_all chunks)"
proof (induction chunks)
  case Nil
  then show ?case by (simp add: strip_bom_def)
next
  case (Cons c chunks)
  then show ?case
    by (cases "utf8_decode_all c") (simp_all add: starts_with_bom_def strip_bom_def)
qed

lemma strip_bom_append:
  "strip_bom ys = ys \<Longrightarrow> strip_bom (xs @ ys) = strip_bom xs @ ys"
  by (cases xs) (simp_all add: strip_bom_def)

lemma decoder_decode_later_chunks:
  "list_all (\<lambda>c. \<not> starts_with_bom c) chunks \<Longrightarrow>
     concat (map decoder_decode chunks) = concat (map utf16_units (concat (map utf8_decode_all chunks)))"
  by (induction chunks) (simp_all add: decoder_decode_def strip_bom_none)

text \<open>Decoding ASCII bytes gives the same characters.\<close>

lemma of_char_nat_bound: "(of_char c :: nat) < 256"
  by (cases c) simp

lemma of_char_nat_ascii: "\<not> digit7 c \<Longrightarrow> (of_char c :: nat) < 128"
  by (cases c) simp

lemma unat_of_char_byte: "unat (of_char c :: byte) = of_char c"
proof -
  have "unat (of_nat (of_char c) :: byte) = of_char c"
    using of_char_nat_bound [of c] by (simp add: unat_of_nat)
  then show ?thesis by (simp add: of_nat_of_char)
qed

lemma utf8_handler_ascii:
  assumes "\<not> digit7 c"
  shows "utf8_handler utf8_init (of_char c) = (utf8_init, [of_char c])"
proof -
  have "(of_char c :: byte) \<le> 0x7F"
    using of_char_nat_ascii [OF assms] by (simp add: word_le_nat_alt unat_of_char_byte)
  then show ?thesis
    by (simp add: utf8_handler_def utf8_lead_def utf8_init_def unat_of_char_byte)
qed

lemma utf8_run_ascii:
  "\<forall>c \<in> set s. \<not> digit7 c \<Longrightarrow> utf8_run utf8_init (ascii s) = (utf8_init, map of_char s)"
  by (induction s) (simp_all add: ascii_def utf8_handler_ascii)

lemma utf16_units_of_char: "utf16_units (of_char c) = [of_char c]"
proof -
  have "(of_char c :: nat) < 0x10000"
    by (rule less_trans [OF of_char_nat_bound]) simp
  then show ?thesis
    by (simp add: utf16_units_def of_nat_of_char)
qed

lemma decoder_decode_ascii:
  assumes "\<forall>c \<in> set s. \<not> digit7 c"
  shows "decoder_decode (ascii s) = js s"
proof -
  have "utf8_decode_all (ascii s) = map of_char s"
    unfolding utf8_decode_all_def utf8_run_ascii [OF assms]
    by (simp add: utf8_end_def utf8_init_def)
  moreover have "strip_bom (map of_char s) = map of_char s"
  proof (cases s)
    case Nil
    then show ?thesis by (simp add: strip_bom_def)
  next
    case (Cons c cs)
    with assms of_char_nat_ascii [of c] show ?thesis by (simp add: strip_bom_def)
  qed
  moreover have "concat (map utf16_units (map of_char s)) = js s"
    by (induction s) (simp_all add: js_def utf16_units_of_char)
  ultimately show ?thesis by (simp add: decoder_decode_def)
qed

text \<open>Concrete lines and payloads.\<close>

lemma data_line:
  "startsWith (js ''data: '' @ payload) (js ''data: '')"
  "slice 6 (js ''data: '' @ payload) = payload"
  by (simp_all add: startsWith_def slice_def js_def)

lemma JSON_parse_browser [simp]: "JSON_parse browser = json_parse"
  by (simp add: browser_def)

lemma parse_event_a: \<open>json_parse (js ''{"type":"a"}'') = Some (typed_event ''a'')\<close>
  unfolding typed_event_def by code_simp

lemma parse_event_b: \<open>json_parse (js ''{"type":"b"}'') = Some (typed_event ''b'')\<close>
  unfolding typed_event_def by code_simp

lemma parse_event_c: \<open>json_parse (js ''{"type":"c"}'') = Some (typed_event ''c'')\<close>
  unfolding typed_event_def by code_simp

lemma type_tag_typed_event: "type_tag (typed_event t) = Value (JString (js t))"
  by (simp add: type_tag_def typed_event_def)

lemma is_event_data:
  "json_parse payload = Some e \<Longrightarrow> e \<noteq> JNull \<Longrightarrow> is_event browser (js ''data: '' @ payload)"
  by (simp add: is_event_def data_line)

lemma delivered_data:
  "json_parse payload = Some e \<Longrightarrow> delivered browser (js ''data: '' @ payload) = (type_tag e, e)"
  by (simp add: delivered_def data_line)

lemma lines_split_1: \<open>js_split (decoder_decode (ascii ''data: {"typ'')) nl = [js ''data: '' @ js ''{"typ'']\<close>
  apply (subst decoder_decode_ascii)
   apply simp
  apply code_simp
  done

lemma lines_split_2: \<open>js_split (decoder_decode (ascii ''e":"a"}\<newline>da'')) nl = [js ''e":"a"}'', js ''da'']\<close>
  apply (subst decoder_decode_ascii)
   apply simp
  apply code_simp
  done

lemma lines_split_3:
  \<open>js_split (decoder_decode (ascii ''ta: {"type":"b"}\<newline>'')) nl = [js ''ta: {"type":"b"}'', []]\<close>
  apply (subst decoder_decode_ascii)
   apply simp
  apply code_simp
  done

lemma parse_truncated: \<open>json_parse (js ''{"typ'') = None\<close>
  by code_simp

lemma lines_unterminated:
  \<open>js_split (decoder_decode (ascii ''data: {"type":"c"}'')) nl = [js ''data: '' @ js ''{"type":"c"}'']\<close>
  apply (subst decoder_decode_ascii)
   apply simp
  apply code_simp
  done

lemma typed_event_not_null [simp]: "typed_event t \<noteq> JNull"
  by (simp add: typed_event_def)

lemma process_line_counting:
  assumes "json_parse payload = Some e" and "e \<noteq> JNull"
  shows "process_line browser counting (js ''data: '' @ payload) w =
           emit (OnEvent (type_tag e) e) (w\<lparr>caller := Suc (caller w)\<rparr>)"
  using process_line_event [of "js ''data: '' @ payload" browser e counting w] assms
  by (simp add: data_line counting_def)

lemma lines_malformed_example:
  \<open>js_split (decoder_decode malformed_example) nl
     = [js ''data: '' @ js ''{"type":"a"}''] @ (js ''data: '' @ js ''{"typ'')
         # [js ''data: '' @ js ''{"type":"b"}'', []]\<close>
  unfolding malformed_example_def
  apply (subst decoder_decode_ascii)
   apply simp
  apply code_simp
  done

lemma lines_noise_example:
  \<open>js_split (decoder_decode noise_example) nl
     = [js ''data: '' @ js ''{"type":"a"}''] @ js '': ping''
         # [js ''data: '' @ js ''{"type":"b"}'', []]\<close>
  unfolding noise_example_def
  apply (subst decoder_decode_ascii)
   apply simp
  apply code_simp
  done

lemma lines_blank_example:
  \<open>js_split (decoder_decode blank_example) nl
     = [js ''data: '' @ js ''{"type":"a"}''] @ []
         # [js ''data: '' @ js ''{"type":"b"}'', []]\<close>
  unfolding blank_example_def
  apply (subst decoder_decode_ascii)
   apply simp
  apply code_simp
  done

lemma parse_null: "json_parse (js ''null'') = Some JNull"
  by code_simp

lemma parse_untyped: \<open>json_parse (js ''{"n":1}'') = Some (JObject [(js ''n'', JNumber (js ''1''))])\<close>
  by code_simp

lemma parse_1: "json_parse (js ''1'') = Some (JNumber (js ''1''))"
  by code_simp

lemma parse_12: "json_parse (js ''12'') = Some (JNumber (js ''12''))"
  by code_simp

lemma lines_null:
  \<open>js_split (decoder_decode (ascii ''data: null\<newline>'')) nl = [js ''data: '' @ js ''null'', []]\<close>
  apply (subst decoder_decode_ascii)
   apply simp
  apply code_simp
  done

lemma lines_untyped:
  \<open>js_split (decoder_decode (ascii ''data: {"n":1}\<newline>'')) nl
     = [] @ (js ''data: '' @ js ''{"n":1}'') # [[]]\<close>
  apply (subst decoder_decode_ascii)
   apply simp
  apply code_simp
  done

lemma decode_cut_number:
  \<open>decoder_decode (ascii ''data: 1'') = js ''data: '' @ js ''1''\<close>
  \<open>decoder_decode (ascii ''2\<newline>'') = js ''2\<newline>''\<close>
  by (simp_all add: decoder_decode_ascii) (simp add: js_def)

lemma lines_cut_number:
  \<open>js_split (js ''data: '' @ js ''1'') nl = [js ''data: '' @ js ''1'']\<close>
  \<open>js_split (js ''2\<newline>'') nl = [js ''2'', []]\<close>
  \<open>js_split (js ''data: '' @ js ''1'' @ js ''2\<newline>'') nl = [js ''data: '' @ js ''12'', []]\<close>
  by code_simp+

subsection \<open>Request headers\<close>

text \<open>
  C8. Every operation issues exactly one request, and its headers are those of
  \<^verbatim>\<open>getHeaders\<close>: \<^verbatim>\<open>Content-Type: application/json\<close> always, and \<^verbatim>\<open>X-Shared-Secret\<close> with
  the secret as its value exactly when a secret is configured, that is, given and not
  the empty string.
\<close>

theorem every_request_carries_headers:
  "map req_headers (requests (trace (snd (listConversations p sharedSecret w))))
     = map req_headers (requests (trace w)) @ [getHeaders sharedSecret]
   \<and> map req_headers (requests (trace (snd (createConversation p sharedSecret w))))
     = map req_headers (requests (trace w)) @ [getHeaders sharedSecret]
   \<and> map req_headers (requests (trace (snd (getConversation p conversationId sharedSecret w))))
     = map req_headers (requests (trace w)) @ [getHeaders sharedSecret]
   \<and> map req_headers (requests (trace (snd (sendMessage p conversationId content sharedSecret w))))
     = map req_headers (requests (trace w)) @ [getHeaders sharedSecret]
   \<and> map req_headers (requests (trace (snd
         (sendMessageStream p conversationId content onEvent sharedSecret w'))))
     = map req_headers (requests (trace w')) @ [getHeaders sharedSecret]
   \<and> map_of (getHeaders sharedSecret) (js ''Content-Type'') = Some (js ''application/json'')
   \<and> map_of (getHeaders sharedSecret) (js ''X-Shared-Secret'')
     = (case sharedSecret of None \<Rightarrow> None | Some s \<Rightarrow> if s = [] then None else Some s)"
  by (simp add: listConversations_def listConversations_request_def
      createConversation_def createConversation_request_def
      getConversation_def getConversation_request_def
      sendMessage_def sendMessage_request_def sendMessageStream_request_def
      getHeaders_def truthy_def header_names_differ split: option.splits)

theorem every_request_carries_headers_witness:
  "getHeaders (Some (js ''s3cret'')) =
     [(js ''Content-Type'', js ''application/json''), (js ''X-Shared-Secret'', js ''s3cret'')]
   \<and> map req_headers (requests (trace (snd
         (sendMessageStream browser (js ''c1'') (js ''hi'') counting (Some (js ''s3cret'')) start))))
     = [getHeaders (Some (js ''s3cret''))]
   \<and> map_of (getHeaders (Some (js ''s3cret''))) (js ''X-Shared-Secret'') = Some (js ''s3cret'')"
proof -
  have "js ''s3cret'' \<noteq> []" by (simp add: js_def)
  then show ?thesis
    using every_request_carries_headers
      [of browser "Some (js ''s3cret'')" start "js ''c1''" "js ''hi''" counting start]
    by (simp add: start_def getHeaders_def truthy_def header_names_differ)
qed

text \<open>
  C9. The empty string as the secret is the same as no secret: the headers have no
  \<^verbatim>\<open>X-Shared-Secret\<close>, and every operation does exactly what it does without a secret.
\<close>

theorem empty_secret_is_no_secret:
  "getHeaders (Some []) = getHeaders None
   \<and> map_of (getHeaders (Some [])) (js ''X-Shared-Secret'') = None
   \<and> listConversations p (Some []) w = listConversations p None w
   \<and> createConversation p (Some []) w = createConversation p None w
   \<and> getConversation p conversationId (Some []) w = getConversation p conversationId None w
   \<and> sendMessage p conversationId content (Some []) w = sendMessage p conversationId content None w
   \<and> sendMessageStream p conversationId content onEvent (Some []) w'
       = sendMessageStream p conversationId content onEvent None w'"
  by (simp add: listConversations_def listConversations_request_def
      createConversation_def createConversation_request_def
      getConversation_def getConversation_request_def
      sendMessage_def sendMessage_request_def
      sendMessageStream_def sendMessageStream_request_def
      getHeaders_def truthy_def header_names_differ)

theorem empty_secret_is_no_secret_witness:
  "getHeaders (Some []) = [(js ''Content-Type'', js ''application/json'')]
   \<and> listConversations browser (Some []) start = listConversations browser None start"
  using empty_secret_is_no_secret [of browser start "js ''c1''" "js ''hi''" counting start]
  by (simp add: getHeaders_def truthy_def)

subsection \<open>The streaming request that fails\<close>

text \<open>
  C6. When the response to the streaming request is not \<^verbatim>\<open>ok\<close>, the operation throws
  \<^verbatim>\<open>Error('Failed to send message')\<close> right after the \<^verbatim>\<open>fetch\<close>: the body is never
  read and the callback is never called.
\<close>

theorem failed_stream_request:
  assumes "fetch p (sendMessageStream_request p conversationId content sharedSecret) = Inr response"
    and "\<not> resp_ok response"
  shows "sendMessageStream p conversationId content onEvent sharedSecret w =
           (Inl (Error ''Failed to send message''),
            emit (Fetch (sendMessageStream_request p conversationId content sharedSecret)) w)
       \<and> reads_made (trace (snd (sendMessageStream p conversationId content onEvent sharedSecret w)))
           = reads_made (trace w)
       \<and> invocations (trace (snd (sendMessageStream p conversationId content onEvent sharedSecret w)))
           = invocations (trace w)
       \<and> caller (snd (sendMessageStream p conversationId content onEvent sharedSecret w)) = caller w"
  using assms by (simp add: sendMessageStream_def Let_def reads_made_def)

theorem failed_stream_request_witness:
  \<open>fetch (browser\<lparr>fetch := (\<lambda>req. Inr not_found)\<rparr>)
      (sendMessageStream_request (browser\<lparr>fetch := (\<lambda>req. Inr not_found)\<rparr>)
         (js ''c1'') (js ''hi'') None) = Inr not_found
   \<and> resp_ok not_found = False
   \<and> resp_body not_found = Some [Chunk (ascii ''data: {"type":"a"}\<newline>'')]
   \<and> fst (sendMessageStream (browser\<lparr>fetch := (\<lambda>req. Inr not_found)\<rparr>)
        (js ''c1'') (js ''hi'') counting None start) = Inl (Error ''Failed to send message'')
   \<and> reads_made (trace (snd (sendMessageStream (browser\<lparr>fetch := (\<lambda>req. Inr not_found)\<rparr>)
        (js ''c1'') (js ''hi'') counting None start))) = 0
   \<and> invocations (trace (snd (sendMessageStream (browser\<lparr>fetch := (\<lambda>req. Inr not_found)\<rparr>)
        (js ''c1'') (js ''hi'') counting None start))) = []\<close>
proof -
  let ?p = "browser\<lparr>fetch := (\<lambda>req. Inr not_found)\<rparr>"
  have f: "fetch ?p (sendMessageStream_request ?p (js ''c1'') (js ''hi'') None) = Inr not_found"
    by simp
  have n: "\<not> resp_ok not_found"
    by (simp add: not_found_def)
  from failed_stream_request [OF f n, of counting start] n show ?thesis
    by (simp add: start_def not_found_def reads_made_def)
qed

subsection \<open>Records and chunk boundaries\<close>

text \<open>
  C1, as stated: whenever the concatenated text of the chunks is N newline-terminated
  \<^verbatim>\<open>data: \<close> records with valid JSON, the callback is called N times, wherever the chunk
  boundaries fall. The loop splits every chunk by itself, so on the specification's own
  example (two such records, cut inside the first and inside the prefix of the second)
  the callback is never called.
\<close>

theorem record_split_across_chunks_is_lost:
  \<open>decoder_decode (concat split_example)
     = newline_terminated [js ''data: {"type":"a"}'', js ''data: {"type":"b"}'']
   \<and> is_event browser (js ''data: {"type":"a"}'')
   \<and> is_event browser (js ''data: {"type":"b"}'')
   \<and> invocations (trace (snd (sendMessageStream (respond browser (map Chunk split_example))
         (js ''c1'') (js ''hi'') counting None start))) = []\<close>
proof -
  have whole: \<open>decoder_decode (concat split_example)
     = newline_terminated [js ''data: {"type":"a"}'', js ''data: {"type":"b"}'']\<close>
  proof -
    have \<open>concat split_example = ascii ''data: {"type":"a"}\<newline>data: {"type":"b"}\<newline>''\<close>
      by (simp add: split_example_def ascii_def)
    then show ?thesis
      by (simp add: decoder_decode_ascii newline_terminated_def js_def nl_def)
  qed
  have a: \<open>js ''data: {"type":"a"}'' = js ''data: '' @ js ''{"type":"a"}''\<close>
    and b: \<open>js ''data: {"type":"b"}'' = js ''data: '' @ js ''{"type":"b"}''\<close>
    by (simp_all add: js_def)
  have ev: \<open>is_event browser (js ''data: {"type":"a"}'')\<close> \<open>is_event browser (js ''data: {"type":"b"}'')\<close>
    unfolding a b
    by (rule is_event_data [OF parse_event_a] is_event_data [OF parse_event_b],
        simp add: typed_event_def)+
  have l1: \<open>process_line browser counting (js ''data: '' @ js ''{"typ'') w = emit ConsoleError w\<close> for w
    by (rule process_line_malformed) (simp_all add: data_line parse_truncated)
  have l2: \<open>process_line browser counting (js ''e":"a"}'') w = w\<close>
    \<open>process_line browser counting (js ''da'') w = w\<close>
    \<open>process_line browser counting (js ''ta: {"type":"b"}'') w = w\<close> for w
    by (rule process_line_other, simp add: startsWith_def js_def)+
  have \<open>invocations (trace (snd (sendMessageStream (respond browser (map Chunk split_example))
         (js ''c1'') (js ''hi'') counting None start))) = []\<close>
    by (simp add: sendMessageStream_respond split_example_def Let_def
        lines_split_1 lines_split_2 lines_split_3 l1 l2 start_def emit_def)
  with whole ev show ?thesis by simp
qed

text \<open>
  C1, amended: when the text is N newline-terminated records, each a \<^verbatim>\<open>data: \<close> line
  whose payload parses to a value other than \<^verbatim>\<open>null\<close>, and no chunk boundary falls
  inside a record (every chunk is made of whole records and newlines), the operation
  returns normally and the callback is called once per record, in the order of the
  records, with \<^verbatim>\<open>event.type\<close> and the event.
\<close>

theorem records_within_chunks_delivered_in_order:
  assumes "list_all (\<lambda>record. nl \<notin> set record \<and> is_event p record) records"
    and "map decoder_decode chunks = map concat groups"
    and "concat groups = tokens records"
  shows "concat (map decoder_decode chunks) = newline_terminated records
       \<and> fst (sendMessageStream (respond p (map Chunk chunks))
                conversationId content onEvent sharedSecret w) = Inr ()
       \<and> invocations (trace (snd (sendMessageStream (respond p (map Chunk chunks))
                conversationId content onEvent sharedSecret w)))
         = invocations (trace w) @ map (delivered p) records"
proof -
  let ?w0 = "emit (Fetch (sendMessageStream_request p conversationId content sharedSecret)) w"
  have whole: "whole_tokens p (concat groups)"
    using whole_tokens_records [OF assms(1)] assms(3) by simp
  have "concat (map concat groups) = concat (concat groups)"
    by (induction groups) simp_all
  then have whole_text: "concat (map decoder_decode chunks) = newline_terminated records"
    using assms(2,3) by (simp add: concat_tokens)

  have "sendMessageStream (respond p (map Chunk chunks)) conversationId content onEvent sharedSecret w
          = (Inr (), emit ReaderRead (after_chunks p onEvent chunks ?w0))"
    using read_loop_chunks [of p onEvent chunks "[]" ?w0]
    by (simp add: sendMessageStream_respond)
  then show ?thesis
    using whole_text after_chunks_whole_tokens [OF assms(2) whole, of onEvent ?w0]
      records_of_tokens [OF assms(1)] assms(3)
    by simp
qed

theorem records_within_chunks_delivered_in_order_witness:
  \<open>map decoder_decode uncut_example =
     map concat
       [[js ''data: {"type":"a"}'', [nl], js ''data: {"type":"b"}''],
        [[nl], js ''data: {"type":"c"}'', [nl]]]
   \<and> concat [[js ''data: {"type":"a"}'', [nl], js ''data: {"type":"b"}''],
              [[nl], js ''data: {"type":"c"}'', [nl]]]
     = tokens [js ''data: {"type":"a"}'', js ''data: {"type":"b"}'', js ''data: {"type":"c"}'']
   \<and> is_event browser (js ''data: {"type":"a"}'')
   \<and> is_event browser (js ''data: {"type":"b"}'')
   \<and> is_event browser (js ''data: {"type":"c"}'')
   \<and> invocations (trace (snd (sendMessageStream (respond browser (map Chunk uncut_example))
         (js ''c1'') (js ''hi'') counting None start)))
     = [(Value (JString (js ''a'')), typed_event ''a''),
        (Value (JString (js ''b'')), typed_event ''b''),
        (Value (JString (js ''c'')), typed_event ''c'')]\<close>
proof -
  let ?a = \<open>js ''data: {"type":"a"}''\<close> and ?b = \<open>js ''data: {"type":"b"}''\<close>
    and ?c = \<open>js ''data: {"type":"c"}''\<close>
  have a: \<open>?a = js ''data: '' @ js ''{"type":"a"}''\<close>
    and b: \<open>?b = js ''data: '' @ js ''{"type":"b"}''\<close>
    and c: \<open>?c = js ''data: '' @ js ''{"type":"c"}''\<close>
    by (simp_all add: js_def)
  have texts: "map decoder_decode uncut_example = map concat [[?a, [nl], ?b], [[nl], ?c, [nl]]]"
    by (simp add: uncut_example_def decoder_decode_ascii) (simp add: js_def nl_def)
  have toks: "concat [[?a, [nl], ?b], [[nl], ?c, [nl]]] = tokens [?a, ?b, ?c]"
    by (simp add: tokens_def)
  have ev: "is_event browser ?a" "is_event browser ?b" "is_event browser ?c"
    unfolding a b c
    by (rule is_event_data [OF parse_event_a] is_event_data [OF parse_event_b]
        is_event_data [OF parse_event_c], simp)+
  have nonl: "nl \<notin> set ?a" "nl \<notin> set ?b" "nl \<notin> set ?c"
    by (simp_all add: js_def nl_def)
  have dl: "delivered browser ?a = (Value (JString (js ''a'')), typed_event ''a'')"
    "delivered browser ?b = (Value (JString (js ''b'')), typed_event ''b'')"
    "delivered browser ?c = (Value (JString (js ''c'')), typed_event ''c'')"
    unfolding a b c
    by (simp_all add: delivered_data [OF parse_event_a] delivered_data [OF parse_event_b]
        delivered_data [OF parse_event_c] type_tag_typed_event)
  have recs: "list_all (\<lambda>record. nl \<notin> set record \<and> is_event browser record) [?a, ?b, ?c]"
    using ev nonl by simp
  from records_within_chunks_delivered_in_order [OF recs texts toks,
      of "js ''c1''" "js ''hi''" counting None start]
  show ?thesis
    using texts toks ev dl by (simp add: start_def)
qed

subsection \<open>The end of the stream\<close>

text \<open>
  C3, as stated: a final record without a trailing newline is never parsed and never
  delivered. The \<^verbatim>\<open>for\<close> loop runs over every segment of a chunk, the last one too, so
  the specification's example of such a record is delivered.
\<close>

theorem unterminated_final_record_is_delivered:
  \<open>nl \<notin> set (decoder_decode (ascii ''data: {"type":"c"}''))
   \<and> invocations (trace (snd (sendMessageStream
         (respond browser [Chunk (ascii ''data: {"type":"c"}'')])
         (js ''c1'') (js ''hi'') counting None start)))
     = [(Value (JString (js ''c'')), typed_event ''c'')]\<close>
proof -
  have \<open>nl \<notin> set (decoder_decode (ascii ''data: {"type":"c"}''))\<close>
    by (simp add: decoder_decode_ascii) (simp add: js_def nl_def)
  moreover have \<open>invocations (trace (snd (sendMessageStream
         (respond browser [Chunk (ascii ''data: {"type":"c"}'')])
         (js ''c1'') (js ''hi'') counting None start)))
     = [(Value (JString (js ''c'')), typed_event ''c'')]\<close>
    by (simp add: sendMessageStream_respond Let_def lines_unterminated
        process_line_counting [OF parse_event_c] type_tag_typed_event start_def emit_def)
  ultimately show ?thesis by simp
qed

text \<open>
  C3, amended: the text of the last chunk that follows its last newline (the whole text
  when it has none) is processed as a record like any other. When it is a \<^verbatim>\<open>data: \<close>
  line whose payload parses to a value other than \<^verbatim>\<open>null\<close>, it is the last event given
  to the callback; nothing is held back when the stream ends.
\<close>

theorem unterminated_record_of_last_chunk_delivered:
  assumes "decoder_decode final = pre @ record"
    and "pre = [] \<or> last pre = nl"
    and "nl \<notin> set record"
    and "is_event p record"
  shows "\<exists>earlier.
           invocations (trace (snd (sendMessageStream (respond p (map Chunk (chunks @ [final])))
                conversationId content onEvent sharedSecret w)))
           = earlier @ [delivered p record]"
proof -
  let ?w0 = "emit (Fetch (sendMessageStream_request p conversationId content sharedSecret)) w"
  let ?w1 = "emit ReaderRead (after_chunks p onEvent chunks ?w0)"
  from js_split_last_segment [OF assms(2,3)] assms(1) obtain ls where
    ls: "js_split (decoder_decode final) nl = ls @ [record]" by auto
  let ?w2 = "fold (process_line p onEvent) ls ?w1"
  have "sendMessageStream (respond p (map Chunk (chunks @ [final])))
          conversationId content onEvent sharedSecret w
        = (Inr (), emit ReaderRead (process_line p onEvent record ?w2))"
    using read_loop_chunks [of p onEvent chunks "[Chunk final]" ?w0]
    by (simp add: sendMessageStream_respond ls)
  moreover have "invocations (trace (process_line p onEvent record ?w2))
                   = invocations (trace ?w2) @ [delivered p record]"
    using fold_events [of "[record]" p onEvent ?w2] assms(4) by simp
  ultimately show ?thesis by simp
qed

theorem unterminated_record_of_last_chunk_delivered_witness:
  \<open>decoder_decode (ascii ''data: {"type":"b"}\<newline>data: {"type":"c"}'')
     = js ''data: {"type":"b"}\<newline>'' @ js ''data: {"type":"c"}''
   \<and> last (js ''data: {"type":"b"}\<newline>'') = nl
   \<and> nl \<notin> set (js ''data: {"type":"c"}'')
   \<and> is_event browser (js ''data: {"type":"c"}'')
   \<and> (\<exists>earlier.
         invocations (trace (snd (sendMessageStream
           (respond browser (map Chunk ([ascii ''data: {"type":"a"}\<newline>'']
              @ [ascii ''data: {"type":"b"}\<newline>data: {"type":"c"}''])))
           (js ''c1'') (js ''hi'') counting None start)))
         = earlier @ [(Value (JString (js ''c'')), typed_event ''c'')])\<close>
proof -
  have c: \<open>js ''data: {"type":"c"}'' = js ''data: '' @ js ''{"type":"c"}''\<close>
    by (simp add: js_def)
  have h1: \<open>decoder_decode (ascii ''data: {"type":"b"}\<newline>data: {"type":"c"}'')
     = js ''data: {"type":"b"}\<newline>'' @ js ''data: {"type":"c"}''\<close>
    by (simp add: decoder_decode_ascii) (simp add: js_def)
  have h2: \<open>js ''data: {"type":"b"}\<newline>'' = [] \<or> last (js ''data: {"type":"b"}\<newline>'') = nl\<close>
    by (simp add: js_def nl_def)
  have h3: \<open>nl \<notin> set (js ''data: {"type":"c"}'')\<close>
    by (simp add: js_def nl_def)
  have h4: \<open>is_event browser (js ''data: {"type":"c"}'')\<close>
    unfolding c by (rule is_event_data [OF parse_event_c]) (simp add: typed_event_def)
  have d: \<open>delivered browser (js ''data: {"type":"c"}'') = (Value (JString (js ''c'')), typed_event ''c'')\<close>
    unfolding c by (simp add: delivered_data [OF parse_event_c] type_tag_typed_event)
  from unterminated_record_of_last_chunk_delivered [OF h1 h2 h3 h4,
      of \<open>[ascii ''data: {"type":"a"}\<newline>'']\<close> "js ''c1''" "js ''hi''" counting None start]
  show ?thesis
    using h1 h3 h4 unfolding d by (simp add: js_def nl_def)
qed

subsection \<open>Records that carry no event\<close>

text \<open>
  C5. A \<^verbatim>\<open>data: \<close> line whose payload \<^verbatim>\<open>JSON.parse\<close> rejects is skipped: the stream
  with that line gives the same result, the same calls of the callback in the same
  order and the same state of the caller as the stream with an empty line in its
  place. The only trace of the line is one more \<^verbatim>\<open>console.error\<close>.
\<close>

theorem malformed_record_is_skipped:
  assumes "js_split (decoder_decode value) nl = pre @ record # post"
    and "js_split (decoder_decode value') nl = pre @ [] # post"
    and "startsWith record (js ''data: '')"
    and "JSON_parse p (slice 6 record) = None"
  shows "fst (sendMessageStream (respond p (map Chunk before @ Chunk value # following))
                conversationId content onEvent sharedSecret w)
         = fst (sendMessageStream (respond p (map Chunk before @ Chunk value' # following))
                conversationId content onEvent sharedSecret w)
       \<and> invocations (trace (snd (sendMessageStream
                (respond p (map Chunk before @ Chunk value # following))
                conversationId content onEvent sharedSecret w)))
         = invocations (trace (snd (sendMessageStream
                (respond p (map Chunk before @ Chunk value' # following))
                conversationId content onEvent sharedSecret w)))
       \<and> caller (snd (sendMessageStream
                (respond p (map Chunk before @ Chunk value # following))
                conversationId content onEvent sharedSecret w))
         = caller (snd (sendMessageStream
                (respond p (map Chunk before @ Chunk value' # following))
                conversationId content onEvent sharedSecret w))
       \<and> errors_logged (trace (snd (sendMessageStream
                (respond p (map Chunk before @ Chunk value # following))
                conversationId content onEvent sharedSecret w)))
         = Suc (errors_logged (trace (snd (sendMessageStream
                (respond p (map Chunk before @ Chunk value' # following))
                conversationId content onEvent sharedSecret w))))"
proof -
  let ?w0 = "emit (Fetch (sendMessageStream_request p conversationId content sharedSecret)) w"
  let ?w1 = "fold (process_line p onEvent) pre
               (emit ReaderRead (after_chunks p onEvent before ?w0))"
  let ?a = "emit ConsoleError ?w1"
  have run: "sendMessageStream (respond p (map Chunk before @ Chunk value # following))
               conversationId content onEvent sharedSecret w
             = read_loop p onEvent following (fold (process_line p onEvent) post ?a)"
    using read_loop_chunks [of p onEvent before "Chunk value # following" ?w0]
    by (simp add: sendMessageStream_respond assms(1) process_line_malformed [OF assms(3,4)])
  have run': "sendMessageStream (respond p (map Chunk before @ Chunk value' # following))
               conversationId content onEvent sharedSecret w
             = read_loop p onEvent following (fold (process_line p onEvent) post ?w1)"
    using read_loop_chunks [of p onEvent before "Chunk value' # following" ?w0]
    by (simp add: sendMessageStream_respond assms(2))
  have "caller ?a = caller ?w1" by simp
  from fold_process_line_frame [OF this, where p = p and onEvent = onEvent and lines = post]
  obtain es where
    es: "trace (fold (process_line p onEvent) post ?a) = trace ?w1 @ ConsoleError # es"
        "trace (fold (process_line p onEvent) post ?w1) = trace ?w1 @ es"
        "caller (fold (process_line p onEvent) post ?a)
           = caller (fold (process_line p onEvent) post ?w1)"
    by auto
  from read_loop_frame [OF es(3), where p = p and onEvent = onEvent and reads = following] es(1,2)
  show ?thesis
    unfolding run run' by (auto simp: errors_logged_def)
qed

theorem malformed_record_is_skipped_witness:
  \<open>startsWith (js ''data: '' @ js ''{"typ'') (js ''data: '')
   \<and> JSON_parse browser (slice 6 (js ''data: '' @ js ''{"typ'')) = None
   \<and> fst (sendMessageStream (respond browser [Chunk malformed_example])
         (js ''c1'') (js ''hi'') counting None start)
     = fst (sendMessageStream (respond browser [Chunk blank_example])
         (js ''c1'') (js ''hi'') counting None start)
   \<and> invocations (trace (snd (sendMessageStream (respond browser [Chunk malformed_example])
         (js ''c1'') (js ''hi'') counting None start)))
     = invocations (trace (snd (sendMessageStream (respond browser [Chunk blank_example])
         (js ''c1'') (js ''hi'') counting None start)))
   \<and> invocations (trace (snd (sendMessageStream (respond browser [Chunk blank_example])
         (js ''c1'') (js ''hi'') counting None start)))
     = [(Value (JString (js ''a'')), typed_event ''a''), (Value (JString (js ''b'')), typed_event ''b'')]
   \<and> errors_logged (trace (snd (sendMessageStream (respond browser [Chunk malformed_example])
         (js ''c1'') (js ''hi'') counting None start)))
     = Suc (errors_logged (trace (snd (sendMessageStream (respond browser [Chunk blank_example])
         (js ''c1'') (js ''hi'') counting None start))))\<close>
proof -
  have h3: \<open>startsWith (js ''data: '' @ js ''{"typ'') (js ''data: '')\<close>
    by (rule data_line)
  have h4: \<open>JSON_parse browser (slice 6 (js ''data: '' @ js ''{"typ'')) = None\<close>
    by (simp add: data_line parse_truncated)
  have blank: \<open>invocations (trace (snd (sendMessageStream (respond browser [Chunk blank_example])
         (js ''c1'') (js ''hi'') counting None start)))
     = [(Value (JString (js ''a'')), typed_event ''a''), (Value (JString (js ''b'')), typed_event ''b'')]\<close>
    by (simp add: sendMessageStream_respond Let_def lines_blank_example
        process_line_counting [OF parse_event_a] process_line_counting [OF parse_event_b]
        type_tag_typed_event start_def emit_def)
  from malformed_record_is_skipped [OF lines_malformed_example lines_blank_example h3 h4,
      of "[]" "[]" "js ''c1''" "js ''hi''" counting None start]
  show ?thesis
    using h3 h4 blank by simp
qed

text \<open>
  C7. A line that does not start with \<^verbatim>\<open>data: \<close> is discarded without a trace: the
  stream with that line does exactly what the stream with an empty line in its place
  does (same result, same state of the caller, same trace, so no call of the callback,
  no error and no \<^verbatim>\<open>console.error\<close> comes from it).
\<close>

theorem other_record_is_discarded:
  assumes "js_split (decoder_decode value) nl = pre @ record # post"
    and "js_split (decoder_decode value') nl = pre @ [] # post"
    and "\<not> startsWith record (js ''data: '')"
  shows "sendMessageStream (respond p (before @ Chunk value # following))
                conversationId content onEvent sharedSecret w
         = sendMessageStream (respond p (before @ Chunk value' # following))
                conversationId content onEvent sharedSecret w"
proof -
  have "read_loop p onEvent (before @ Chunk value # following) w0
          = read_loop p onEvent (before @ Chunk value' # following) w0" for w0
  proof (induction before arbitrary: w0)
    case Nil
    show ?case by (simp add: assms(1,2) process_line_other [OF assms(3)])
  next
    case (Cons r before)
    then show ?case by (cases r) (simp_all add: Let_def)
  qed
  then show ?thesis by (simp add: sendMessageStream_respond)
qed

theorem other_record_is_discarded_witness:
  \<open>startsWith (js '': ping'') (js ''data: '') = False
   \<and> sendMessageStream (respond browser [Chunk noise_example])
         (js ''c1'') (js ''hi'') counting None start
     = sendMessageStream (respond browser [Chunk blank_example])
         (js ''c1'') (js ''hi'') counting None start
   \<and> invocations (trace (snd (sendMessageStream (respond browser [Chunk noise_example])
         (js ''c1'') (js ''hi'') counting None start)))
     = [(Value (JString (js ''a'')), typed_event ''a''), (Value (JString (js ''b'')), typed_event ''b'')]\<close>
proof -
  have h3: \<open>\<not> startsWith (js '': ping'') (js ''data: '')\<close>
    by (simp add: startsWith_def js_def)
  have blank: \<open>invocations (trace (snd (sendMessageStream (respond browser [Chunk blank_example])
         (js ''c1'') (js ''hi'') counting None start)))
     = [(Value (JString (js ''a'')), typed_event ''a''), (Value (JString (js ''b'')), typed_event ''b'')]\<close>
    by (simp add: sendMessageStream_respond Let_def lines_blank_example
        process_line_counting [OF parse_event_a] process_line_counting [OF parse_event_b]
        type_tag_typed_event start_def emit_def)
  from other_record_is_discarded [OF lines_noise_example lines_blank_example h3,
      of browser "[]" "[]" "js ''c1''" "js ''hi''" counting None start]
  show ?thesis
    using h3 blank by simp
qed

subsection \<open>Events without a type\<close>

text \<open>
  C10, as stated: every \<^verbatim>\<open>data: \<close> record whose payload parses as JSON and has no
  \<^verbatim>\<open>type\<close> field is given to the callback. The payload \<^verbatim>\<open>null\<close> parses and has no such
  field, but reading \<^verbatim>\<open>event.type\<close> of \<^verbatim>\<open>null\<close> throws inside the \<^verbatim>\<open>try\<close> block: the
  callback is not called and the record is logged like a malformed one.
\<close>

theorem null_payload_is_not_delivered:
  \<open>json_parse (js ''null'') = Some JNull
   \<and> lacks_type JNull
   \<and> invocations (trace (snd (sendMessageStream
         (respond browser [Chunk (ascii ''data: null\<newline>'')])
         (js ''c1'') (js ''hi'') counting None start))) = []
   \<and> errors_logged (trace (snd (sendMessageStream
         (respond browser [Chunk (ascii ''data: null\<newline>'')])
         (js ''c1'') (js ''hi'') counting None start))) = 1\<close>
proof -
  have l: "process_line browser counting (js ''data: '' @ js ''null'') w = emit ConsoleError w" for w
    by (rule process_line_null) (simp_all add: data_line parse_null)
  show ?thesis
    by (simp add: parse_null lacks_type_def sendMessageStream_respond Let_def lines_null l
        start_def emit_def errors_logged_def)
qed

text \<open>
  C10, amended: every \<^verbatim>\<open>data: \<close> record whose payload parses to a JSON value other than
  \<^verbatim>\<open>null\<close> that has no \<^verbatim>\<open>type\<close> member (an object without that member, or an array,
  string, number or boolean) is given to the callback, with \<^verbatim>\<open>undefined\<close> as the first
  argument and the parsed value as the second.
\<close>

theorem event_without_type_is_delivered:
  assumes "js_split (decoder_decode value) nl = pre @ record # post"
    and "startsWith record (js ''data: '')"
    and "JSON_parse p (slice 6 record) = Some event"
    and "event \<noteq> JNull"
    and "lacks_type event"
  shows "(Undefined, event) \<in> set (invocations (trace (snd (sendMessageStream
                (respond p (map Chunk before @ Chunk value # following))
                conversationId content onEvent sharedSecret w))))"
proof -
  let ?w0 = "emit (Fetch (sendMessageStream_request p conversationId content sharedSecret)) w"
  let ?w1 = "fold (process_line p onEvent) pre
               (emit ReaderRead (after_chunks p onEvent before ?w0))"
  let ?w2 = "process_line p onEvent record ?w1"
  have run: "sendMessageStream (respond p (map Chunk before @ Chunk value # following))
               conversationId content onEvent sharedSecret w
             = read_loop p onEvent following (fold (process_line p onEvent) post ?w2)"
    using read_loop_chunks [of p onEvent before "Chunk value # following" ?w0]
    by (simp add: sendMessageStream_respond assms(1))
  have here: "invocations (trace ?w2) = invocations (trace ?w1) @ [(Undefined, event)]"
    using invocations_process_line_event [OF assms(2,3,4)] type_tag_lacking [OF assms(5)]
    by simp
  obtain es where "trace (fold (process_line p onEvent) post ?w2) = trace ?w2 @ es"
    using fold_process_line_extends by blast
  moreover obtain fs where
    "trace (snd (read_loop p onEvent following (fold (process_line p onEvent) post ?w2)))
       = trace (fold (process_line p onEvent) post ?w2) @ fs"
    using read_loop_extends by blast
  ultimately show ?thesis
    unfolding run using here by simp
qed

theorem event_without_type_is_delivered_witness:
  \<open>JSON_parse browser (slice 6 (js ''data: '' @ js ''{"n":1}''))
     = Some (JObject [(js ''n'', JNumber (js ''1''))])
   \<and> lacks_type (JObject [(js ''n'', JNumber (js ''1''))])
   \<and> (Undefined, JObject [(js ''n'', JNumber (js ''1''))])
       \<in> set (invocations (trace (snd (sendMessageStream
             (respond browser [Chunk (ascii ''data: {"n":1}\<newline>'')])
             (js ''c1'') (js ''hi'') counting None start))))\<close>
proof -
  let ?e = "JObject [(js ''n'', JNumber (js ''1''))]"
  have h2: \<open>startsWith (js ''data: '' @ js ''{"n":1}'') (js ''data: '')\<close>
    by (rule data_line)
  have h3: \<open>JSON_parse browser (slice 6 (js ''data: '' @ js ''{"n":1}'')) = Some ?e\<close>
    by (simp add: data_line parse_untyped)
  have h4: "?e \<noteq> JNull" by simp
  have h5: "lacks_type ?e"
    by (simp add: lacks_type_def js_def)
  from event_without_type_is_delivered [OF lines_untyped h2 h3 h4 h5,
      of "[]" "[]" "js ''c1''" "js ''hi''" counting None start]
  show ?thesis
    using h3 h5 by simp
qed

subsection \<open>The Pending Buffer and the decoder state\<close>

text \<open>
  C2, as stated: the loop keeps a Pending Buffer with the text after the last newline
  seen; of the segments of a chunk all but the last are treated as complete records.
  The source has no such buffer and treats the last segment as a record too. When the
  record \<^verbatim>\<open>data: 12\<close> arrives cut after the \<^verbatim>\<open>1\<close>, the source delivers the event \<^verbatim>\<open>1\<close>
  from the first chunk and nothing from the second, where a loop with the buffer
  delivers the event \<^verbatim>\<open>12\<close>.
\<close>

theorem last_segment_is_treated_as_record:
  \<open>invocations (trace (snd (sendMessageStream (respond browser cut_number_example)
       (js ''c1'') (js ''hi'') counting None start)))
     = [(Undefined, JNumber (js ''1''))]
   \<and> invocations (trace (snd (buffered_read_loop browser counting [] cut_number_example start)))
     = [(Undefined, JNumber (js ''12''))]\<close>
proof -
  have l1: "process_line browser counting (js ''data: '' @ js ''1'') w
              = emit (OnEvent Undefined (JNumber (js ''1''))) (w\<lparr>caller := Suc (caller w)\<rparr>)" for w
    using process_line_counting [OF parse_1, of w] by (simp add: type_tag_def)
  have l12: "process_line browser counting (js ''data: '' @ js ''12'') w
              = emit (OnEvent Undefined (JNumber (js ''12''))) (w\<lparr>caller := Suc (caller w)\<rparr>)" for w
    using process_line_counting [OF parse_12, of w] by (simp add: type_tag_def)
  have l2: "process_line browser counting (js ''2'') w = w" for w
    by (rule process_line_other) (simp add: startsWith_def js_def)
  show ?thesis
    by (simp add: sendMessageStream_respond cut_number_example_def Let_def
        decode_cut_number lines_cut_number l1 l12 l2 start_def emit_def)
qed

text \<open>
  C2, amended: the source keeps no Pending Buffer. Each chunk's decoded text is split on
  newlines by itself and every segment, the last one too, is treated as a complete
  record. It does what the loop with a Pending Buffer does whenever that buffer would
  stay empty: when the decoded text of every chunk is empty or ends with a newline.
\<close>

theorem no_pending_buffer_needed_for_whole_lines:
  assumes "list_all whole_lines reads"
  shows "sendMessageStream (respond p reads) conversationId content onEvent sharedSecret w
           = buffered_read_loop p onEvent [] reads
               (emit (Fetch (sendMessageStream_request p conversationId content sharedSecret)) w)"
proof -
  have "read_loop p onEvent reads w0 = buffered_read_loop p onEvent [] reads w0" for w0
    using assms
  proof (induction reads arbitrary: w0)
    case Nil
    then show ?case by simp
  next
    case (Cons r reads)
    show ?case
    proof (cases r)
      case (Chunk "value")
      with Cons.prems have "ends_with_newline (decoder_decode value)"
        by (simp add: whole_lines_def)
      from js_split_whole_lines [OF this, of p onEvent "emit ReaderRead w0"] have
        buf: "last (js_split (decoder_decode value) nl) = []" and
        recs: "fold (process_line p onEvent) (js_split (decoder_decode value) nl)
                 (emit ReaderRead w0)
               = fold (process_line p onEvent) (butlast (js_split (decoder_decode value) nl))
                   (emit ReaderRead w0)"
        by simp_all
      have "read_loop p onEvent (r # reads) w0
              = read_loop p onEvent reads
                  (fold (process_line p onEvent) (butlast (js_split (decoder_decode value) nl))
                     (emit ReaderRead w0))"
        using Chunk recs by (simp add: Let_def)
      also have "\<dots> = buffered_read_loop p onEvent [] reads
                  (fold (process_line p onEvent) (butlast (js_split (decoder_decode value) nl))
                     (emit ReaderRead w0))"
        using Cons by simp
      also have "\<dots> = buffered_read_loop p onEvent [] (r # reads) w0"
        using Chunk buf by (simp add: Let_def)
      finally show ?thesis .
    next
      case ReadFails
      then show ?thesis by simp
    qed
  qed
  then show ?thesis by (simp add: sendMessageStream_respond)
qed

theorem no_pending_buffer_needed_for_whole_lines_witness:
  \<open>whole_lines (Chunk blank_example)
   \<and> whole_lines (Chunk [])
   \<and> sendMessageStream (respond browser [Chunk blank_example, Chunk [], ReadFails])
         (js ''c1'') (js ''hi'') counting None start
     = buffered_read_loop browser counting [] [Chunk blank_example, Chunk [], ReadFails]
         (emit (Fetch (sendMessageStream_request browser (js ''c1'') (js ''hi'') None)) start)\<close>
proof -
  have h1: "whole_lines (Chunk blank_example)"
    by (simp add: whole_lines_def blank_example_def decoder_decode_ascii ends_with_newline_def)
       (simp add: js_def nl_def)
  have h2: "whole_lines (Chunk [])"
    using decoder_decode_ascii [of "[]"]
    by (simp add: whole_lines_def ends_with_newline_def ascii_def js_def)
  have "list_all whole_lines [Chunk blank_example, Chunk [], ReadFails]"
    using h1 h2 by (simp add: whole_lines_def)
  from no_pending_buffer_needed_for_whole_lines [OF this,
      of browser "js ''c1''" "js ''hi''" counting None start]
  show ?thesis
    using h1 h2 by simp
qed

text \<open>
  C4, as stated: a character whose bytes are cut by a chunk boundary is reconstructed,
  so that the text is the decoding of the concatenated bytes. \<^verbatim>\<open>decoder.decode(value)\<close>
  is called without the \<^verbatim>\<open>stream\<close> option, so every chunk is decoded by itself: the two
  bytes of U+00E9 in two chunks give two U+FFFD.
\<close>

theorem split_character_is_not_reconstructed:
  "concat (map decoder_decode [[0xC3], [0xA9]]) = [0xFFFD, 0xFFFD]
   \<and> decoder_decode (concat [[0xC3], [0xA9]]) = [0xE9]"
  by (simp add: decoder_decode_def utf8_decode_all_def utf8_handler_def utf8_lead_def
      utf8_init_def utf8_end_def strip_bom_def utf16_units_def)

text \<open>
  C4, amended: when no chunk boundary cuts a character (after every chunk the decoder
  has no sequence open) and no chunk after the first starts with a byte order mark, the
  text decoded chunk by chunk is the decoding of the concatenated bytes.
\<close>

theorem whole_characters_decode_as_concatenation:
  assumes "list_all ends_on_character_boundary chunks"
    and "list_all (\<lambda>c. \<not> starts_with_bom c) (tl chunks)"
  shows "concat (map decoder_decode chunks) = decoder_decode (concat chunks)"
proof (cases chunks)
  case Nil
  then show ?thesis
    by (simp add: decoder_decode_def utf8_decode_all_def utf8_end_def utf8_init_def strip_bom_def)
next
  case (Cons c cs)
  with assms(2) have later: "list_all (\<lambda>c. \<not> starts_with_bom c) cs" by simp
  have "decoder_decode (concat chunks)
          = concat (map utf16_units (strip_bom (utf8_decode_all c @ concat (map utf8_decode_all cs))))"
    using utf8_decode_all_concat [OF assms(1)] Cons by (simp add: decoder_decode_def)
  also have "\<dots> = concat (map utf16_units (strip_bom (utf8_decode_all c)))
                    @ concat (map utf16_units (concat (map utf8_decode_all cs)))"
    by (simp add: strip_bom_append [OF strip_bom_concat_none [OF later]])
  also have "\<dots> = concat (map decoder_decode chunks)"
    using Cons by (simp add: decoder_decode_later_chunks [OF later] decoder_decode_def)
  finally show ?thesis by simp
qed

theorem whole_characters_decode_as_concatenation_witness:
  "ends_on_character_boundary [0x63, 0xC3, 0xA9]
   \<and> ends_on_character_boundary [0xE2, 0x82, 0xAC]
   \<and> starts_with_bom [0xE2, 0x82, 0xAC] = False
   \<and> concat (map decoder_decode [[0x63, 0xC3, 0xA9], [0xE2, 0x82, 0xAC]])
     = decoder_decode (concat [[0x63, 0xC3, 0xA9], [0xE2, 0x82, 0xAC]])
   \<and> decoder_decode (concat [[0x63, 0xC3, 0xA9], [0xE2, 0x82, 0xAC]]) = [0x63, 0xE9, 0x20AC]"
proof -
  have h1: "ends_on_character_boundary [0x63, 0xC3, 0xA9]"
    "ends_on_character_boundary [0xE2, 0x82, 0xAC]"
    by (simp_all add: ends_on_character_boundary_def utf8_handler_def utf8_lead_def utf8_init_def)
  have h2: "\<not> starts_with_bom [0xE2, 0x82, 0xAC]"
    by (simp add: starts_with_bom_def utf8_decode_all_def utf8_handler_def utf8_lead_def
        utf8_init_def utf8_end_def)
  have v: "decoder_decode (concat [[0x63, 0xC3, 0xA9], [0xE2, 0x82, 0xAC]]) = [0x63, 0xE9, 0x20AC]"
    by (simp add: decoder_decode_def utf8_decode_all_def utf8_handler_def utf8_lead_def
        utf8_init_def utf8_end_def strip_bom_def utf16_units_def)
  have "list_all ends_on_character_boundary [[0x63, 0xC3, 0xA9], [0xE2, 0x82, 0xAC]]"
    "list_all (\<lambda>c. \<not> starts_with_bom c) (tl [[0x63, 0xC3, 0xA9], [0xE2, 0x82, 0xAC]])"
    using h1 h2 by simp_all
  from whole_characters_decode_as_concatenation [OF this]
  show ?thesis
    using h1 h2 v by simp
qed

end
